theory Spec2Isabelle
  imports Main "HOL-Library.Word"
begin

unbundle bit_operations_syntax

section \<open>Bytes and machine words\<close>

text \<open>
  The converter is a 32-bit x86 plugin (its stream wrapper calls the host through
  inline \<^verbatim>\<open>__asm\<close> blocks written for the Win32 register convention), so
  \<^verbatim>\<open>unsigned char\<close> is an 8-bit word, \<^verbatim>\<open>int\<close> and
  \<^verbatim>\<open>unsigned int\<close> are 32-bit words, and \<^verbatim>\<open>std::size_t\<close> is a
  32-bit unsigned word as well.
\<close>

type_synonym byte = "8 word"
type_synonym u16 = "16 word"
type_synonym u32 = "32 word"

text \<open>\<^verbatim>\<open>_byteswap_ulong\<close> followed by a copy of the four bytes in memory order
  (little-endian host): the most significant byte comes first.\<close>

definition be32 :: "u32 \<Rightarrow> byte list" where
  "be32 v = [ucast (drop_bit 24 v), ucast (drop_bit 16 v), ucast (drop_bit 8 v), ucast v]"

text \<open>The lambdas \<^verbatim>\<open>write_u16\<close> and \<^verbatim>\<open>write_u32\<close> of the encoders build
  their buffers with the least significant byte first.\<close>

definition le16 :: "u16 \<Rightarrow> byte list" where
  "le16 v = [ucast (v AND 0xFF), ucast (drop_bit 8 v AND 0xFF)]"

definition le32 :: "u32 \<Rightarrow> byte list" where
  "le32 v = [ucast (v AND 0xFF), ucast (drop_bit 8 v AND 0xFF),
             ucast (drop_bit 16 v AND 0xFF), ucast (drop_bit 24 v AND 0xFF)]"

text \<open>Reading a 32-bit field of a packed struct that was filled from the stream.\<close>

definition word_of_le :: "byte list \<Rightarrow> u32" where
  "word_of_le bs = foldr (\<lambda>b acc. ucast b OR push_bit 8 acc) bs 0"

text \<open>A C string literal as the bytes it occupies.\<close>

definition bytes_of :: "string \<Rightarrow> byte list" where
  "bytes_of s = map of_char s"

section \<open>CRC-32 (\<^verbatim>\<open>crc32_png\<close>, pid_convert.h)\<close>

definition crc_table :: "u32 list" where
  "crc_table = [
      0x00000000, 0x77073096, 0xee0e612c, 0x990951ba, 0x076dc419, 0x706af48f,
      0xe963a535, 0x9e6495a3, 0x0edb8832, 0x79dcb8a4, 0xe0d5e91e, 0x97d2d988,
      0x09b64c2b, 0x7eb17cbd, 0xe7b82d07, 0x90bf1d91, 0x1db71064, 0x6ab020f2,
      0xf3b97148, 0x84be41de, 0x1adad47d, 0x6ddde4eb, 0xf4d4b551, 0x83d385c7,
      0x136c9856, 0x646ba8c0, 0xfd62f97a, 0x8a65c9ec, 0x14015c4f, 0x63066cd9,
      0xfa0f3d63, 0x8d080df5, 0x3b6e20c8, 0x4c69105e, 0xd56041e4, 0xa2677172,
      0x3c03e4d1, 0x4b04d447, 0xd20d85fd, 0xa50ab56b, 0x35b5a8fa, 0x42b2986c,
      0xdbbbc9d6, 0xacbcf940, 0x32d86ce3, 0x45df5c75, 0xdcd60dcf, 0xabd13d59,
      0x26d930ac, 0x51de003a, 0xc8d75180, 0xbfd06116, 0x21b4f4b5, 0x56b3c423,
      0xcfba9599, 0xb8bda50f, 0x2802b89e, 0x5f058808, 0xc60cd9b2, 0xb10be924,
      0x2f6f7c87, 0x58684c11, 0xc1611dab, 0xb6662d3d, 0x76dc4190, 0x01db7106,
      0x98d220bc, 0xefd5102a, 0x71b18589, 0x06b6b51f, 0x9fbfe4a5, 0xe8b8d433,
      0x7807c9a2, 0x0f00f934, 0x9609a88e, 0xe10e9818, 0x7f6a0dbb, 0x086d3d2d,
      0x91646c97, 0xe6635c01, 0x6b6b51f4, 0x1c6c6162, 0x856530d8, 0xf262004e,
      0x6c0695ed, 0x1b01a57b, 0x8208f4c1, 0xf50fc457, 0x65b0d9c6, 0x12b7e950,
      0x8bbeb8ea, 0xfcb9887c, 0x62dd1ddf, 0x15da2d49, 0x8cd37cf3, 0xfbd44c65,
      0x4db26158, 0x3ab551ce, 0xa3bc0074, 0xd4bb30e2, 0x4adfa541, 0x3dd895d7,
      0xa4d1c46d, 0xd3d6f4fb, 0x4369e96a, 0x346ed9fc, 0xad678846, 0xda60b8d0,
      0x44042d73, 0x33031de5, 0xaa0a4c5f, 0xdd0d7cc9, 0x5005713c, 0x270241aa,
      0xbe0b1010, 0xc90c2086, 0x5768b525, 0x206f85b3, 0xb966d409, 0xce61e49f,
      0x5edef90e, 0x29d9c998, 0xb0d09822, 0xc7d7a8b4, 0x59b33d17, 0x2eb40d81,
      0xb7bd5c3b, 0xc0ba6cad, 0xedb88320, 0x9abfb3b6, 0x03b6e20c, 0x74b1d29a,
      0xead54739, 0x9dd277af, 0x04db2615, 0x73dc1683, 0xe3630b12, 0x94643b84,
      0x0d6d6a3e, 0x7a6a5aa8, 0xe40ecf0b, 0x9309ff9d, 0x0a00ae27, 0x7d079eb1,
      0xf00f9344, 0x8708a3d2, 0x1e01f268, 0x6906c2fe, 0xf762575d, 0x806567cb,
      0x196c3671, 0x6e6b06e7, 0xfed41b76, 0x89d32be0, 0x10da7a56, 0x67dd4acc,
      0xf9b9df6f, 0x8ebeeff9, 0x17b7be43, 0x60b08ed5, 0xd6d6a3e8, 0xa1d1937e,
      0x38d8c2c4, 0x4fdff252, 0xd1bb67f1, 0xa6bc5767, 0x3fb506dd, 0x48b2364b,
      0xd80d2bda, 0xaf0a1b4c, 0x36034af6, 0x41047a60, 0xdf60efc3, 0xa867df55,
      0x316e8eef, 0x4669be79, 0xcb61b38c, 0xbc66831a, 0x256fd2a0, 0x5268e236,
      0xcc0c7795, 0xbb0b4703, 0x220216b9, 0x5505262f, 0xc5ba3bbe, 0xb2bd0b28,
      0x2bb45a92, 0x5cb36a04, 0xc2d7ffa7, 0xb5d0cf31, 0x2cd99e8b, 0x5bdeae1d,
      0x9b64c2b0, 0xec63f226, 0x756aa39c, 0x026d930a, 0x9c0906a9, 0xeb0e363f,
      0x72076785, 0x05005713, 0x95bf4a82, 0xe2b87a14, 0x7bb12bae, 0x0cb61b38,
      0x92d28e9b, 0xe5d5be0d, 0x7cdcefb7, 0x0bdbdf21, 0x86d3d2d4, 0xf1d4e242,
      0x68ddb3f8, 0x1fda836e, 0x81be16cd, 0xf6b9265b, 0x6fb077e1, 0x18b74777,
      0x88085ae6, 0xff0f6a70, 0x66063bca, 0x11010b5c, 0x8f659eff, 0xf862ae69,
      0x616bffd3, 0x166ccf45, 0xa00ae278, 0xd70dd2ee, 0x4e048354, 0x3903b3c2,
      0xa7672661, 0xd06016f7, 0x4969474d, 0x3e6e77db, 0xaed16a4a, 0xd9d65adc,
      0x40df0b66, 0x37d83bf0, 0xa9bcae53, 0xdebb9ec5, 0x47b2cf7f, 0x30b5ffe9,
      0xbdbdf21c, 0xcabac28a, 0x53b39330, 0x24b4a3a6, 0xbad03605, 0xcdd70693,
      0x54de5729, 0x23d967bf, 0xb3667a2e, 0xc4614ab8, 0x5d681b02, 0x2a6f2b94,
      0xb40bbe37, 0xc30c8ea1, 0x5a05df1b, 0x2d02ef8d
  ]"

fun crc_loop :: "u32 \<Rightarrow> byte list \<Rightarrow> u32" where
  "crc_loop crc [] = crc"
| "crc_loop crc (d # ds) =
     crc_loop ((crc_table ! unat ((crc XOR ucast d) AND 0xff)) XOR drop_bit 8 crc) ds"

declare crc_loop.simps [simp del]

text \<open>\<^verbatim>\<open>crc32_png(data, len, crc)\<close>: the bytes are the first \<open>len\<close> at the pointer.\<close>

definition crc32_png :: "byte list \<Rightarrow> nat \<Rightarrow> u32 \<Rightarrow> u32" where
  "crc32_png data len crc =
     (if len = 0 then NOT crc
      else NOT (crc_loop (NOT crc) (take len data)))"

text \<open>
  The reference the table is compared with: the CRC-32 of the PNG and zlib
  specifications, reflected polynomial \<open>0xEDB88320\<close>, one bit at a time.
  Entry \<open>n\<close> of the standard table is \<open>n\<close> after eight such steps.
\<close>

definition spec_crc_bit :: "u32 \<Rightarrow> u32" where
  "spec_crc_bit c = (if bit c 0 then 0xEDB88320 XOR drop_bit 1 c else drop_bit 1 c)"

definition spec_crc_entry :: "nat \<Rightarrow> u32" where
  "spec_crc_entry n = (spec_crc_bit ^^ 8) (of_nat n)"

definition spec_crc_byte :: "u32 \<Rightarrow> byte \<Rightarrow> u32" where
  "spec_crc_byte c d = spec_crc_entry (unat ((c XOR ucast d) AND 0xff)) XOR drop_bit 8 c"

definition spec_crc32 :: "byte list \<Rightarrow> u32" where
  "spec_crc32 ds = NOT (foldl spec_crc_byte (NOT 0) ds)"

section \<open>PNG chunks (\<^verbatim>\<open>write_PNG_Chunk\<close>)\<close>

text \<open>
  The chunk is appended to the assembly buffer, which is returned updated. The
  payload is a pointer (\<open>None\<close> for \<^verbatim>\<open>nullptr\<close>) and a 32-bit length.
\<close>

definition write_PNG_Chunk ::
  "byte list \<Rightarrow> string \<Rightarrow> byte list option \<Rightarrow> u32 \<Rightarrow> byte list" where
  "write_PNG_Chunk buffer type data length' =
     (let buffer1 = buffer @ be32 length';
          buffer2 = buffer1 @ take 4 (bytes_of type);
          buffer3 = (case data of
                       Some bytes \<Rightarrow>
                         if length' > 0 then buffer2 @ take (unat length') bytes else buffer2
                     | None \<Rightarrow> buffer2);
          crc = crc32_png (bytes_of type) 4 0;
          crc' = (case data of
                    Some bytes \<Rightarrow>
                      if length' > 0 then crc32_png bytes (unat length') crc else crc
                  | None \<Rightarrow> crc)
      in buffer3 @ be32 crc')"

section \<open>Data of the converter (pid_convert.h)\<close>

record Color =
  col_r :: byte
  col_g :: byte
  col_b :: byte
  col_a :: byte

datatype PNGMode = PNG_8 | PNG_24 | PNG_32

text \<open>The packed 32-byte header. \<^verbatim>\<open>int\<close> fields are 32-bit words read with
  \<open>sint\<close> where the code compares them as signed numbers.\<close>

record PIDHeader =
  ID :: u32
  Flags :: u32
  Width :: u32
  Height :: u32
  U :: "u32 list"

definition mk_color :: "byte \<times> byte \<times> byte \<times> byte \<Rightarrow> Color" where
  "mk_color c = (case c of (r, g, b, a) \<Rightarrow> \<lparr>col_r = r, col_g = g, col_b = b, col_a = a\<rparr>)"

definition defaultPalette :: "Color list" where
  "defaultPalette = map mk_color [
      (0, 0, 0, 255), (128, 0, 0, 255), (0, 128, 0, 255), (128, 128, 0, 255), (0, 0, 128, 255),
      (128, 0, 128, 255), (0, 128, 128, 255), (192, 192, 192, 255), (192, 220, 192, 255), (166, 202, 240, 255),
      (42, 63, 170, 255), (42, 63, 255, 255), (42, 95, 0, 255), (42, 95, 85, 255), (42, 95, 170, 255),
      (42, 95, 255, 255), (42, 127, 0, 255), (42, 127, 85, 255), (42, 127, 170, 255), (42, 127, 255, 255),
      (42, 159, 0, 255), (42, 159, 85, 255), (42, 159, 170, 255), (42, 159, 255, 255), (42, 191, 0, 255),
      (42, 191, 85, 255), (42, 191, 170, 255), (42, 191, 255, 255), (42, 223, 0, 255), (42, 223, 85, 255),
      (42, 223, 170, 255), (42, 223, 255, 255), (42, 255, 0, 255), (42, 255, 85, 255), (42, 255, 170, 255),
      (42, 255, 255, 255), (85, 0, 0, 255), (85, 0, 85, 255), (85, 0, 170, 255), (85, 0, 255, 255),
      (85, 31, 0, 255), (85, 31, 85, 255), (85, 31, 170, 255), (85, 31, 255, 255), (85, 63, 0, 255),
      (85, 63, 85, 255), (85, 63, 170, 255), (85, 63, 255, 255), (85, 95, 0, 255), (85, 95, 85, 255),
      (85, 95, 170, 255), (85, 95, 255, 255), (85, 127, 0, 255), (85, 127, 85, 255), (85, 127, 170, 255),
      (85, 127, 255, 255), (85, 159, 0, 255), (85, 159, 85, 255), (85, 159, 170, 255), (85, 159, 255, 255),
      (85, 191, 0, 255), (85, 191, 85, 255), (85, 191, 170, 255), (85, 191, 255, 255), (85, 223, 0, 255),
      (85, 223, 85, 255), (85, 223, 170, 255), (85, 223, 255, 255), (85, 255, 0, 255), (85, 255, 85, 255),
      (85, 255, 170, 255), (85, 255, 255, 255), (127, 0, 0, 255), (127, 0, 85, 255), (127, 0, 170, 255),
      (127, 0, 255, 255), (127, 31, 0, 255), (127, 31, 85, 255), (127, 31, 170, 255), (127, 31, 255, 255),
      (127, 63, 0, 255), (127, 63, 85, 255), (127, 63, 170, 255), (127, 63, 255, 255), (127, 95, 0, 255),
      (127, 95, 85, 255), (127, 95, 170, 255), (127, 95, 255, 255), (127, 127, 0, 255), (127, 127, 85, 255),
      (127, 127, 170, 255), (127, 127, 255, 255), (127, 159, 0, 255), (127, 159, 85, 255), (127, 159, 170, 255),
      (127, 159, 255, 255), (127, 191, 0, 255), (127, 191, 85, 255), (127, 191, 170, 255), (127, 191, 255, 255),
      (127, 223, 0, 255), (127, 223, 85, 255), (127, 223, 170, 255), (127, 223, 255, 255), (127, 255, 0, 255),
      (127, 255, 85, 255), (127, 255, 170, 255), (127, 255, 255, 255), (170, 0, 0, 255), (170, 0, 85, 255),
      (170, 0, 170, 255), (170, 0, 255, 255), (170, 31, 0, 255), (170, 31, 85, 255), (170, 31, 170, 255),
      (170, 31, 255, 255), (170, 63, 0, 255), (170, 63, 85, 255), (170, 63, 170, 255), (170, 63, 255, 255),
      (170, 95, 0, 255), (170, 95, 85, 255), (170, 95, 170, 255), (170, 95, 255, 255), (170, 127, 0, 255),
      (170, 127, 85, 255), (170, 127, 170, 255), (170, 127, 255, 255), (170, 159, 0, 255), (170, 159, 85, 255),
      (170, 159, 170, 255), (170, 159, 255, 255), (170, 191, 0, 255), (170, 191, 85, 255), (170, 191, 170, 255),
      (170, 191, 255, 255), (170, 223, 0, 255), (170, 223, 85, 255), (170, 223, 170, 255), (170, 223, 255, 255),
      (170, 255, 0, 255), (170, 255, 85, 255), (170, 255, 170, 255), (170, 255, 255, 255), (212, 0, 0, 255),
      (212, 0, 85, 255), (212, 0, 170, 255), (212, 0, 255, 255), (212, 31, 0, 255), (212, 31, 85, 255),
      (212, 31, 170, 255), (212, 31, 255, 255), (212, 63, 0, 255), (212, 63, 85, 255), (212, 63, 170, 255),
      (212, 63, 255, 255), (212, 95, 0, 255), (212, 95, 85, 255), (212, 95, 170, 255), (212, 95, 255, 255),
      (212, 127, 0, 255), (212, 127, 85, 255), (212, 127, 170, 255), (212, 127, 255, 255), (212, 159, 0, 255),
      (212, 159, 85, 255), (212, 159, 170, 255), (212, 159, 255, 255), (212, 191, 0, 255), (212, 191, 85, 255),
      (212, 191, 170, 255), (212, 191, 255, 255), (212, 223, 0, 255), (212, 223, 85, 255), (212, 223, 170, 255),
      (212, 223, 255, 255), (212, 255, 0, 255), (212, 255, 85, 255), (212, 255, 170, 255), (212, 255, 255, 255),
      (255, 0, 85, 255), (255, 0, 170, 255), (255, 31, 0, 255), (255, 31, 85, 255), (255, 31, 170, 255),
      (255, 31, 255, 255), (255, 63, 0, 255), (255, 63, 85, 255), (255, 63, 170, 255), (255, 63, 255, 255),
      (255, 95, 0, 255), (255, 95, 85, 255), (255, 95, 170, 255), (255, 95, 255, 255), (255, 127, 0, 255),
      (255, 127, 85, 255), (255, 127, 170, 255), (255, 127, 255, 255), (255, 159, 0, 255), (255, 159, 85, 255),
      (255, 159, 170, 255), (255, 159, 255, 255), (255, 191, 0, 255), (255, 191, 85, 255), (255, 191, 170, 255),
      (255, 191, 255, 255), (255, 223, 0, 255), (255, 223, 85, 255), (255, 223, 170, 255), (255, 223, 255, 255),
      (255, 255, 85, 255), (255, 255, 170, 255), (204, 204, 255, 255), (255, 204, 255, 255), (51, 255, 255, 255),
      (102, 255, 255, 255), (153, 255, 255, 255), (204, 255, 255, 255), (0, 127, 0, 255), (0, 127, 85, 255),
      (0, 127, 170, 255), (0, 127, 255, 255), (0, 159, 0, 255), (0, 159, 85, 255), (0, 159, 170, 255),
      (0, 159, 255, 255), (0, 191, 0, 255), (0, 191, 85, 255), (0, 191, 170, 255), (0, 191, 255, 255),
      (0, 223, 0, 255), (0, 223, 85, 255), (0, 223, 170, 255), (0, 223, 255, 255), (0, 255, 85, 255),
      (0, 255, 170, 255), (42, 0, 0, 255), (42, 0, 85, 255), (42, 0, 170, 255), (42, 0, 255, 255),
      (42, 31, 0, 255), (42, 31, 85, 255), (42, 31, 170, 255), (42, 31, 255, 255), (42, 63, 0, 255),
      (42, 63, 85, 255), (255, 251, 240, 255), (160, 160, 164, 255), (128, 128, 128, 255), (255, 0, 0, 255),
      (0, 255, 0, 255), (255, 255, 0, 255), (0, 0, 255, 255), (255, 0, 255, 255), (0, 255, 255, 255),
      (255, 255, 255, 255)
  ]"

section \<open>The host's streams\<close>

text \<open>
  Modelled from the spec: the byte streams are objects of the host application,
  reached through \<^verbatim>\<open>DelphiTStreamWrapper\<close>; their code is not part of the
  repository. The source stream is a finite sequence of bytes with a cursor:
  a read delivers the bytes that are left, up to the count asked for, and moves the
  cursor past them; a seek computes the new cursor from the origin and reports an
  error (a negative result) instead of moving before the start.
\<close>

record sstream =
  sdata :: "byte list"
  spos :: nat

datatype TSeekOrigin = soFromBeginning | soFromCurrent | soFromEnd

definition sread :: "sstream \<Rightarrow> nat \<Rightarrow> byte list \<times> sstream" where
  "sread s count =
     (let got = take count (drop (spos s) (sdata s))
      in (got, s\<lparr>spos := spos s + length got\<rparr>))"

definition sseek :: "sstream \<Rightarrow> int \<Rightarrow> TSeekOrigin \<Rightarrow> int \<times> sstream" where
  "sseek s offset origin =
     (let base = (case origin of
                    soFromBeginning \<Rightarrow> 0
                  | soFromCurrent \<Rightarrow> int (spos s)
                  | soFromEnd \<Rightarrow> int (length (sdata s)));
          res = base + offset
      in if res < 0 then (- 1, s) else (res, s\<lparr>spos := nat res\<rparr>))"

text \<open>\<^verbatim>\<open>srcStream.read(&X, 1) != 1\<close>: one byte, or nothing.\<close>

definition read_byte :: "sstream \<Rightarrow> (byte \<times> sstream) option" where
  "read_byte s = (case sread s 1 of ([x], s') \<Rightarrow> Some (x, s') | _ \<Rightarrow> None)"

text \<open>
  Modelled from the spec: the destination stream, also the host's. Each call of its
  \<^verbatim>\<open>Write\<close> may accept any number of the bytes offered or report an error; the
  model lets the host's answer depend on how many calls came before and on the
  count asked for (\<open>dreply\<close>), keeps the bytes accepted so far (\<open>dout\<close>), and
  records every call with the count asked for and the count the wrapper reported
  (\<open>dlog\<close>). \<open>dseek_ok\<close> is the host's answer to a seek to the start.
\<close>

record dstream =
  dout :: "byte list"
  dlog :: "(nat \<times> nat) list"
  dreply :: "nat \<Rightarrow> nat \<Rightarrow> int"
  dseek_ok :: bool
  dcursor :: nat

text \<open>\<^verbatim>\<open>DelphiTStreamWrapper::write\<close>: nothing is asked of the host for an empty
  buffer, the count is clamped to \<^verbatim>\<open>INT_MAX\<close>, and a negative answer is reported
  as 0 bytes.\<close>

definition dwrite :: "dstream \<Rightarrow> byte list \<Rightarrow> nat \<times> dstream" where
  "dwrite d buffer =
     (let count = length buffer in
      if count = 0 then (0, d)
      else
        let icount = (if count > 2 ^ 31 - 1 then 2 ^ 31 - 1 else count);
            result = dreply d (length (dlog d)) icount;
            n = (if result < 0 then 0 else nat result)
        in (n, d\<lparr>dout := dout d @ take n buffer,
                  dlog := dlog d @ [(count, n)],
                  dcursor := dcursor d + min n count\<rparr>))"

definition seek_abs :: "dstream \<Rightarrow> nat \<Rightarrow> bool \<times> dstream" where
  "seek_abs d absoluteOffset =
     (if dseek_ok d then (True, d\<lparr>dcursor := absoluteOffset\<rparr>) else (False, d))"

text \<open>A host that takes everything it is given, with nothing written yet.\<close>

definition fresh_dst :: dstream where
  "fresh_dst = \<lparr>dout = [], dlog = [], dreply = (\<lambda>calls count. int count),
                 dseek_ok = True, dcursor = 0\<rparr>"

text \<open>A host whose \<^verbatim>\<open>Write\<close> accepts nothing at all (a full or read-only target).\<close>

definition full_dst :: dstream where
  "full_dst = \<lparr>dout = [], dlog = [], dreply = (\<lambda>calls count. 0),
                dseek_ok = True, dcursor = 0\<rparr>"

section \<open>Raster decompression (\<^verbatim>\<open>ConvertPID\<close>, the two loops)\<close>

text \<open>
  The raster is a vector of fixed size, written through \<^verbatim>\<open>pixels[pos++] = v\<close>.
  A store outside the vector has no defined behaviour in C++; the model makes it
  the result \<open>None\<close>, so that a run of the decoder that returns \<open>Some\<close> has kept
  every store inside the vector.
\<close>

definition store :: "byte list \<Rightarrow> nat \<Rightarrow> byte \<Rightarrow> byte list option" where
  "store v i x = (if i < length v then Some (v[i := x]) else None)"

definition SIZE_MAX :: nat where
  "SIZE_MAX = 2 ^ 32 - 1"

text \<open>\<^verbatim>\<open>srcStream.read(&X, 1)\<close> on this stream, in closed form.\<close>

lemma read_byte_eq:
  "read_byte s =
     (if spos s < length (sdata s)
      then Some (sdata s ! spos s, s\<lparr>spos := spos s + 1\<rparr>) else None)"
proof (cases "spos s < length (sdata s)")
  case True
  then have "take 1 (drop (spos s) (sdata s)) = [sdata s ! spos s]"
    by (simp add: take_Suc_conv_app_nth[of 0] Cons_nth_drop_Suc[symmetric] take_Suc)
  then show ?thesis using True by (simp add: read_byte_def sread_def)
next
  case False
  then show ?thesis by (simp add: read_byte_def sread_def)
qed

text \<open>\<^verbatim>\<open>for (int i = 0; i < count && pos < pixels.size(); ++i) pixels[pos++] = fill;\<close>\<close>

function fill_run :: "nat \<Rightarrow> nat \<Rightarrow> byte \<Rightarrow> nat \<Rightarrow> byte list \<Rightarrow> (nat \<times> byte list) option" where
  "fill_run i count fill pos pixels =
     (if i < count \<and> pos < length pixels then
        (case store pixels pos fill of
           None \<Rightarrow> None
         | Some pixels' \<Rightarrow> fill_run (i + 1) count fill (pos + 1) pixels')
      else Some (pos, pixels))"
  by pat_completeness auto
termination
  by (relation "measure (\<lambda>(i, count, fill, pos, pixels). count - i)") auto

text \<open>The literal run of the run-length grammar: a byte that cannot be read sets
  \<open>pos\<close> to \<open>SIZE_MAX\<close> and leaves the loop.\<close>

function lit_run :: "nat \<Rightarrow> nat \<Rightarrow> sstream \<Rightarrow> nat \<Rightarrow> byte list \<Rightarrow> (sstream \<times> nat \<times> byte list) option" where
  "lit_run i A s pos pixels =
     (if i < A \<and> pos < length pixels then
        (case read_byte s of
           None \<Rightarrow> Some (s, SIZE_MAX, pixels)
         | Some (B, s') \<Rightarrow>
             (case store pixels pos B of
                None \<Rightarrow> None
              | Some pixels' \<Rightarrow> lit_run (i + 1) A s' (pos + 1) pixels'))
      else Some (s, pos, pixels))"
  by pat_completeness auto
termination
  by (relation "measure (\<lambda>(i, A, s, pos, pixels). A - i)") auto

declare fill_run.simps [simp del]
declare lit_run.simps [simp del]

lemma lit_run_stream:
  "lit_run i A s pos pixels = Some (s', pos', pixels') \<Longrightarrow>
     sdata s' = sdata s \<and> spos s \<le> spos s'"
proof (induction i A s pos pixels rule: lit_run.induct)
  case (1 i A s pos pixels)
  show ?case
  proof (cases "i < A \<and> pos < length pixels")
    case False
    with "1.prems" show ?thesis by (simp add: lit_run.simps[of i])
  next
    case True
    show ?thesis
    proof (cases "spos s < length (sdata s)")
      case False
      with True "1.prems" show ?thesis
        by (simp add: lit_run.simps[of i] read_byte_eq)
    next
      case avail: True
      let ?s1 = "s\<lparr>spos := spos s + 1\<rparr>"
      let ?B = "sdata s ! spos s"
      from True avail "1.prems"
      have run: "lit_run (i + 1) A ?s1 (pos + 1) (pixels[pos := ?B]) = Some (s', pos', pixels')"
        by (simp add: lit_run.simps[of i] read_byte_eq store_def)
      have "sdata s' = sdata ?s1 \<and> spos ?s1 \<le> spos s'"
        by (rule "1.IH"[OF True _ _ _ run]) (simp_all add: read_byte_eq avail store_def True)
      then show ?thesis by simp
    qed
  qed
qed

text \<open>The loop for \<^verbatim>\<open>rleCompression\<close>. The result is \<open>pos\<close>, the raster and the
  stream as the loop leaves them.\<close>

function rle_loop :: "sstream \<Rightarrow> nat \<Rightarrow> byte list \<Rightarrow> (nat \<times> byte list \<times> sstream) option" where
  "rle_loop s pos pixels =
     (if pos < length pixels then
        (case read_byte s of
           None \<Rightarrow> Some (pos, pixels, s)
         | Some (A, s1) \<Rightarrow>
             if A > 128 then
               (case fill_run 0 (unat A - 128) 0 pos pixels of
                  None \<Rightarrow> None
                | Some (pos', pixels') \<Rightarrow> rle_loop s1 pos' pixels')
             else
               (case lit_run 0 (unat A) s1 pos pixels of
                  None \<Rightarrow> None
                | Some (s2, pos', pixels') \<Rightarrow>
                    if pos' = SIZE_MAX then Some (pos', pixels', s2)
                    else rle_loop s2 pos' pixels'))
      else Some (pos, pixels, s))"
  by pat_completeness auto
termination
proof (relation "measure (\<lambda>(s, pos, pixels). length (sdata s) - spos s)", goal_cases)
  case 1
  show ?case by simp
next
  case (2 s pos pixels p A s1 q pos' pixels')
  then show ?case by (auto simp: read_byte_eq split: if_splits)
next
  case (3 s pos pixels p A s1 q s2 r pos' pixels')
  from 3(2,3) have "read_byte s = Some (A, s1)" by simp
  then have "spos s < length (sdata s)" "s1 = s\<lparr>spos := spos s + 1\<rparr>"
    by (simp_all add: read_byte_eq split: if_splits)
  moreover from 3(5,6,7) have "sdata s2 = sdata s1 \<and> spos s1 \<le> spos s2"
    using lit_run_stream[of 0 "unat A" s1 pos pixels s2 pos' pixels'] by simp
  ultimately show ?case by auto
qed

text \<open>The loop of the other grammar (\<^verbatim>\<open>rleCompression\<close> false).\<close>

function raw_loop :: "sstream \<Rightarrow> nat \<Rightarrow> byte list \<Rightarrow> (nat \<times> byte list \<times> sstream) option" where
  "raw_loop s pos pixels =
     (if pos < length pixels then
        (case read_byte s of
           None \<Rightarrow> Some (pos, pixels, s)
         | Some (A, s1) \<Rightarrow>
             let count = (if A > 192 then unat A - 192 else 1) in
             if A > 192 then
               (case read_byte s1 of
                  None \<Rightarrow> Some (pos, pixels, s1)
                | Some (B, s2) \<Rightarrow>
                    (case fill_run 0 count B pos pixels of
                       None \<Rightarrow> None
                     | Some (pos', pixels') \<Rightarrow> raw_loop s2 pos' pixels'))
             else
               (case fill_run 0 count A pos pixels of
                  None \<Rightarrow> None
                | Some (pos', pixels') \<Rightarrow> raw_loop s1 pos' pixels'))
      else Some (pos, pixels, s))"
  by pat_completeness auto
termination
  by (relation "measure (\<lambda>(s, pos, pixels). length (sdata s) - spos s)")
     (auto simp: read_byte_eq split: if_splits)

declare rle_loop.simps [simp del]
declare raw_loop.simps [simp del]

text \<open>Both loops as \<^verbatim>\<open>ConvertPID\<close> runs them: a zeroed vector of \<open>pixel_count\<close>
  entries, \<open>pos = 0\<close>.\<close>

definition decompress :: "bool \<Rightarrow> sstream \<Rightarrow> nat \<Rightarrow> (nat \<times> byte list \<times> sstream) option" where
  "decompress rleCompression s pixel_count =
     (if rleCompression then rle_loop s 0 (replicate pixel_count 0)
      else raw_loop s 0 (replicate pixel_count 0))"


section \<open>Reading and writing vectors by index\<close>

text \<open>
  The encoders and the orientation step compute indices such as
  \<^verbatim>\<open>y * width + x\<close> in \<^verbatim>\<open>int\<close> and pass them to \<^verbatim>\<open>operator[]\<close>, which
  takes a \<^verbatim>\<open>size_t\<close>. \<open>idx32\<close> is that value: the 32-bit result, read as
  unsigned. As for \<open>store\<close>, an access outside the vector is the result \<open>None\<close>.
\<close>

definition idx32 :: "int \<Rightarrow> nat" where
  "idx32 i = nat (i mod 2 ^ 32)"

definition load :: "byte list \<Rightarrow> nat \<Rightarrow> byte option" where
  "load v i = (if i < length v then Some (v ! i) else None)"

text \<open>\<^verbatim>\<open>&v[i]\<close> used as a buffer of \<open>n\<close> bytes, and the iterator range
  \<^verbatim>\<open>v.begin() + i\<close> to \<^verbatim>\<open>v.begin() + i + n\<close>.\<close>

definition load_range :: "byte list \<Rightarrow> nat \<Rightarrow> nat \<Rightarrow> byte list option" where
  "load_range v i n = (if i + n \<le> length v then Some (take n (drop i v)) else None)"

text \<open>
  A \<^verbatim>\<open>std::vector\<close> of bytes holds at most \<^verbatim>\<open>max_size()\<close> elements, which is
  \<open>2^31 - 1\<close> on the 32-bit target. Constructing one with more, reserving more or
  growing one beyond that throws; the exception leaves the encoder and reaches the
  handler of \<^verbatim>\<open>ConvertPID\<close>, which returns 1. \<open>grow\<close> is \<^verbatim>\<open>push_back\<close> and
  \<^verbatim>\<open>insert\<close> at the end, with \<open>None\<close> for the exception. Below that limit
  memory is taken to be available.
\<close>

definition vec_max :: nat where
  "vec_max = 2 ^ 31 - 1"

definition grow :: "byte list \<Rightarrow> byte list \<Rightarrow> byte list option" where
  "grow v bytes = (if length v + length bytes > vec_max then None else Some (v @ bytes))"

section \<open>Orientation (\<^verbatim>\<open>ConvertPID\<close>, mirror / invert)\<close>

function flip_row ::
  "byte list \<Rightarrow> int \<Rightarrow> int \<Rightarrow> bool \<Rightarrow> int \<Rightarrow> int \<Rightarrow> int \<Rightarrow> byte list \<Rightarrow> byte list option" where
  "flip_row pixels width height mirror srcY y x flipped =
     (if x < width then
        (let srcX = (if mirror then width - 1 - x else x) in
         case load pixels (idx32 (srcY * width + srcX)) of
           None \<Rightarrow> None
         | Some v \<Rightarrow>
             (case store flipped (idx32 (y * width + x)) v of
                None \<Rightarrow> None
              | Some flipped' \<Rightarrow> flip_row pixels width height mirror srcY y (x + 1) flipped'))
      else Some flipped)"
  by pat_completeness auto
termination
  by (relation "measure (\<lambda>(pixels, width, height, mirror, srcY, y, x, flipped). nat (width - x))") auto

function flip_rows ::
  "byte list \<Rightarrow> int \<Rightarrow> int \<Rightarrow> bool \<Rightarrow> bool \<Rightarrow> int \<Rightarrow> byte list \<Rightarrow> byte list option" where
  "flip_rows pixels width height mirror invert y flipped =
     (if y < height then
        (let srcY = (if invert then height - 1 - y else y) in
         case flip_row pixels width height mirror srcY y 0 flipped of
           None \<Rightarrow> None
         | Some flipped' \<Rightarrow> flip_rows pixels width height mirror invert (y + 1) flipped')
      else Some flipped)"
  by pat_completeness auto
termination
  by (relation "measure (\<lambda>(pixels, width, height, mirror, invert, y, flipped). nat (height - y))") auto

declare flip_row.simps [simp del]
declare flip_rows.simps [simp del]

text \<open>The whole step: \<^verbatim>\<open>flipped\<close> starts as a zeroed vector of the raster's size
  and replaces the raster; without \<^verbatim>\<open>mirror\<close> and \<^verbatim>\<open>invert\<close> the raster stays.\<close>

definition orient :: "byte list \<Rightarrow> int \<Rightarrow> int \<Rightarrow> bool \<Rightarrow> bool \<Rightarrow> byte list option" where
  "orient pixels width height mirror invert =
     (if mirror \<or> invert
      then flip_rows pixels width height mirror invert 0 (replicate (length pixels) 0)
      else Some pixels)"

section \<open>Palette\<close>

function read_palette :: "bool \<Rightarrow> sstream \<Rightarrow> nat \<Rightarrow> Color list \<Rightarrow> (Color list \<times> sstream) option" where
  "read_palette useTransparency s i palette =
     (if i < 256 then
        (case read_byte s of
           None \<Rightarrow> None
         | Some (r, s1) \<Rightarrow>
             (case read_byte s1 of
                None \<Rightarrow> None
              | Some (g, s2) \<Rightarrow>
                  (case read_byte s2 of
                     None \<Rightarrow> None
                   | Some (b, s3) \<Rightarrow>
                       read_palette useTransparency s3 (i + 1)
                         (palette @ [\<lparr>col_r = r, col_g = g, col_b = b,
                                      col_a = (if useTransparency \<and> i = 0 then 0 else 255)\<rparr>]))))
      else Some (palette, s))"
  by pat_completeness auto
termination
  by (relation "measure (\<lambda>(useTransparency, s, i, palette). 256 - i)") auto

declare read_palette.simps [simp del]

text \<open>The palette branch of \<^verbatim>\<open>ConvertPID\<close>; \<open>None\<close> is its \<^verbatim>\<open>return 1\<close>.\<close>

definition resolve_palette :: "bool \<Rightarrow> bool \<Rightarrow> sstream \<Rightarrow> (Color list \<times> sstream) option" where
  "resolve_palette hasPalette useTransparency s =
     (if hasPalette then
        (case sseek s (- 768) soFromEnd of
           (res, s1) \<Rightarrow> if res < 0 then None else read_palette useTransparency s1 0 [])
      else
        Some (if useTransparency
              then defaultPalette[0 := (defaultPalette ! 0)\<lparr>col_a := 0\<rparr>]
              else defaultPalette, s))"

section \<open>Encoders\<close>

text \<open>\<^verbatim>\<open>dst.write(b, k) == k\<close>, the test every checked write makes.\<close>

definition write_ok :: "byte list \<Rightarrow> dstream \<Rightarrow> bool \<times> dstream" where
  "write_ok buffer d = (case dwrite d buffer of (n, d') \<Rightarrow> (n = length buffer, d'))"

text \<open>A run of \<^verbatim>\<open>if (!write(...)) return 1;\<close> statements: the writes in order,
  stopping at the first that fails.\<close>

fun write_seq :: "byte list list \<Rightarrow> dstream \<Rightarrow> bool \<times> dstream" where
  "write_seq [] d = (True, d)"
| "write_seq (b # bs) d =
     (case write_ok b d of (ok, d') \<Rightarrow> if ok then write_seq bs d' else (False, d'))"

declare write_seq.simps [simp del]

text \<open>The local copy of the palette with index 0 made black.\<close>

definition black_palette :: "Color list \<Rightarrow> bool \<Rightarrow> Color list" where
  "black_palette palette_src useTransparency =
     (if useTransparency
      then palette_src[0 := (palette_src ! 0)\<lparr>col_r := 0, col_g := 0, col_b := 0\<rparr>]
      else palette_src)"

subsection \<open>\<^verbatim>\<open>SaveToBMP\<close>\<close>

function bmp_fill_row ::
  "byte list \<Rightarrow> Color list \<Rightarrow> int \<Rightarrow> int \<Rightarrow> int \<Rightarrow> byte list \<Rightarrow> byte list option" where
  "bmp_fill_row pixels palette width y x row =
     (if x < width then
        (case load pixels (idx32 (y * width + x)) of
           None \<Rightarrow> None
         | Some idx \<Rightarrow>
             (case store row (idx32 (x * 3 + 0)) (col_b (palette ! unat idx)) of
                None \<Rightarrow> None
              | Some row1 \<Rightarrow>
                  (case store row1 (idx32 (x * 3 + 1)) (col_g (palette ! unat idx)) of
                     None \<Rightarrow> None
                   | Some row2 \<Rightarrow>
                       (case store row2 (idx32 (x * 3 + 2)) (col_r (palette ! unat idx)) of
                          None \<Rightarrow> None
                        | Some row3 \<Rightarrow> bmp_fill_row pixels palette width y (x + 1) row3))))
      else Some row)"
  by pat_completeness auto
termination
  by (relation "measure (\<lambda>(pixels, palette, width, y, x, row). nat (width - x))") auto

text \<open>The row loop, from the bottom row up. The result is whether every row was
  written in full.\<close>

function bmp_rows ::
  "dstream \<Rightarrow> byte list \<Rightarrow> Color list \<Rightarrow> int \<Rightarrow> int \<Rightarrow> byte list \<Rightarrow> (bool \<times> dstream) option" where
  "bmp_rows d pixels palette width y row =
     (if y \<ge> 0 then
        (case bmp_fill_row pixels palette width y 0 row of
           None \<Rightarrow> None
         | Some row' \<Rightarrow>
             (case write_ok row' d of
                (ok, d') \<Rightarrow>
                  if ok then bmp_rows d' pixels palette width (y - 1) row'
                  else Some (False, d')))
      else Some (True, d))"
  by pat_completeness auto
termination
  by (relation "measure (\<lambda>(d, pixels, palette, width, y, row). nat (y + 1))") auto

declare bmp_fill_row.simps [simp del]
declare bmp_rows.simps [simp del]

text \<open>
  \<^verbatim>\<open>rowSize\<close> is an \<^verbatim>\<open>int\<close>; the vector \<^verbatim>\<open>row\<close> is constructed with it
  converted to \<^verbatim>\<open>size_t\<close>. When \<^verbatim>\<open>width * 3 + 3\<close> has overflowed to a negative
  number that size is above \<open>vec_max\<close> and the constructor throws: the conversion
  returns 1 with the 16 header fields written.
\<close>

definition SaveToBMP ::
  "dstream \<Rightarrow> byte list \<Rightarrow> u32 \<Rightarrow> u32 \<Rightarrow> Color list \<Rightarrow> bool \<Rightarrow> (int \<times> dstream) option" where
  "SaveToBMP dst pixels width height palette_src useTransparency =
     (let palette = black_palette palette_src useTransparency;
          bpp = (24 :: u16);
          rowSize = (width * 3 + 3) AND NOT 3;
          imageSize = rowSize * height;
          infoSize = (40 :: u32);
          paletteBytes = (0 :: u32);
          dataOffset = 14 + infoSize + paletteBytes;
          fileSize = dataOffset + imageSize
      in case write_seq
           [bytes_of ''BM'', le32 fileSize, le16 0, le16 0, le32 dataOffset,
            le32 infoSize, le32 width, le32 height, le16 1, le16 bpp, le32 0,
            le32 imageSize, le32 0, le32 0, le32 0, le32 0] dst of
           (ok, dst1) \<Rightarrow>
             if \<not> ok then Some (1, dst1)
             else if unat rowSize > vec_max then Some (1, dst1)
             else
               (case bmp_rows dst1 pixels palette (sint width) (sint height - 1)
                       (replicate (unat rowSize) 0) of
                  None \<Rightarrow> None
                | Some (ok', dst2) \<Rightarrow>
                    if \<not> ok' then Some (1, dst2)
                    else
                      (case seek_abs dst2 0 of
                         (ok'', dst3) \<Rightarrow> if \<not> ok'' then Some (1, dst3) else Some (0, dst3))))"

subsection \<open>\<^verbatim>\<open>SaveToTGA\<close>\<close>

function tga_palette :: "dstream \<Rightarrow> Color list \<Rightarrow> nat \<Rightarrow> bool \<times> dstream" where
  "tga_palette d palette i =
     (if i < 256 then
        (case write_ok [col_b (palette ! i), col_g (palette ! i), col_r (palette ! i)] d of
           (ok, d') \<Rightarrow> if ok then tga_palette d' palette (i + 1) else (False, d'))
      else (True, d))"
  by pat_completeness auto
termination
  by (relation "measure (\<lambda>(d, palette, i). 256 - i)") auto

function tga_rows :: "dstream \<Rightarrow> byte list \<Rightarrow> int \<Rightarrow> int \<Rightarrow> int \<Rightarrow> (bool \<times> dstream) option" where
  "tga_rows d pixels width height y =
     (if y < height then
        (case load_range pixels (idx32 (y * width)) (nat width) of
           None \<Rightarrow> None
         | Some row \<Rightarrow>
             (case write_ok row d of
                (ok, d') \<Rightarrow>
                  if ok then tga_rows d' pixels width height (y + 1)
                  else Some (False, d')))
      else Some (True, d))"
  by pat_completeness auto
termination
  by (relation "measure (\<lambda>(d, pixels, width, height, y). nat (height - y))") auto

declare tga_palette.simps [simp del]
declare tga_rows.simps [simp del]

definition SaveToTGA ::
  "dstream \<Rightarrow> byte list \<Rightarrow> u32 \<Rightarrow> u32 \<Rightarrow> Color list \<Rightarrow> bool \<Rightarrow> (int \<times> dstream) option" where
  "SaveToTGA dst pixels width height palette_src useTransparency =
     (let palette = black_palette palette_src useTransparency;
          idLength = (0 :: byte);
          colorMapType = (1 :: byte);
          imageType = (1 :: byte);
          colorMapStart = (0 :: u16);
          colorMapLength = (256 :: u16);
          colorMapBits = (24 :: byte);
          xOrigin = (0 :: u16);
          yOrigin = (0 :: u16);
          pixelDepth = (8 :: u16);
          imageDesc = (0x20 :: byte)
      in case write_seq
           [[idLength], [colorMapType], [imageType], le16 colorMapStart,
            le16 colorMapLength, [colorMapBits], le16 xOrigin, le16 yOrigin,
            le16 (ucast width), le16 (ucast height), [ucast pixelDepth], [imageDesc]] dst of
           (ok, dst1) \<Rightarrow>
             if \<not> ok then Some (1, dst1)
             else
               (case tga_palette dst1 palette 0 of
                  (ok', dst2) \<Rightarrow>
                    if \<not> ok' then Some (1, dst2)
                    else
                      (case tga_rows dst2 pixels (sint width) (sint height) 0 of
                         None \<Rightarrow> None
                       | Some (ok'', dst3) \<Rightarrow>
                           if \<not> ok'' then Some (1, dst3)
                           else
                             (case seek_abs dst3 0 of
                                (ok3, dst4) \<Rightarrow>
                                  if \<not> ok3 then Some (1, dst4) else Some (0, dst4)))))"


subsection \<open>\<^verbatim>\<open>SaveToPNG\<close>\<close>

text \<open>
  Modelled from the spec: zlib, an external library. \<open>deflateInit_ok\<close> says
  whether \<^verbatim>\<open>deflateInit\<close> returns \<^verbatim>\<open>Z_OK\<close>; \<open>deflateBound\<close> is the value of
  \<^verbatim>\<open>deflateBound\<close> for a source of the given length; \<open>deflate\<close> is the compressed
  stream of the given input, of which one call of \<^verbatim>\<open>deflate\<close> with \<^verbatim>\<open>Z_FINISH\<close>
  leaves in the output buffer as many bytes as the buffer has room for.
\<close>

record zlib =
  deflateInit_ok :: bool
  deflateBound :: "nat \<Rightarrow> nat"
  deflate :: "byte list \<Rightarrow> byte list"

text \<open>
  The first \<^verbatim>\<open>compSize\<close> bytes of the vector \<^verbatim>\<open>compressed\<close> after the call of
  \<^verbatim>\<open>deflate\<close>. The vector is constructed with
  \<^verbatim>\<open>deflateBound(&zs, (uLong)idat.size()) + 16\<close> entries, a sum in the 32-bit
  \<^verbatim>\<open>uLong\<close>; \<open>None\<close> is the exception of the constructor when that is above
  \<open>vec_max\<close>.
\<close>

definition compressed :: "zlib \<Rightarrow> byte list \<Rightarrow> byte list option" where
  "compressed z idat =
     (let size = idx32 (int (deflateBound z (length idat)) + 16)
      in if size > vec_max then None else Some (take size (deflate z idat)))"

definition signature :: "byte list" where
  "signature = [0x89, of_char CHR ''P'', of_char CHR ''N'', of_char CHR ''G'', 0x0D, 0x0A, 0x1A, 0x0A]"

text \<open>\<^verbatim>\<open>pixels.begin() + from\<close> to \<^verbatim>\<open>pixels.begin() + to\<close> with offsets computed
  in \<^verbatim>\<open>int\<close>: \<open>s32\<close> reads the 32-bit result as a signed number, and the range is
  valid when it lies inside the vector.\<close>

definition s32 :: "int \<Rightarrow> int" where
  "s32 i = (i + 2 ^ 31) mod 2 ^ 32 - 2 ^ 31"

definition iter_range :: "byte list \<Rightarrow> int \<Rightarrow> int \<Rightarrow> byte list option" where
  "iter_range v from to =
     (if 0 \<le> from \<and> from \<le> to \<and> to \<le> int (length v)
      then Some (take (nat (to - from)) (drop (nat from) v)) else None)"

text \<open>The three loops that build \<^verbatim>\<open>idat\<close>. \<open>None\<close> is a read outside the
  raster, \<open>Some None\<close> the exception of a vector that cannot grow.\<close>

function png8_rows ::
  "byte list \<Rightarrow> int \<Rightarrow> int \<Rightarrow> int \<Rightarrow> byte list \<Rightarrow> byte list option option" where
  "png8_rows pixels width height y idat =
     (if y < height then
        (case grow idat [0] of
           None \<Rightarrow> Some None
         | Some idat1 \<Rightarrow>
             (case iter_range pixels (s32 (y * width)) (s32 ((y + 1) * width)) of
                None \<Rightarrow> None
              | Some row \<Rightarrow>
                  (case grow idat1 row of
                     None \<Rightarrow> Some None
                   | Some idat2 \<Rightarrow> png8_rows pixels width height (y + 1) idat2)))
      else Some (Some idat))"
  by pat_completeness auto
termination
  by (relation "measure (\<lambda>(pixels, width, height, y, idat). nat (height - y))") auto

text \<open>The loops for 24 and 32 bits per pixel differ in the alpha byte only, which
  the second appends to each pixel; \<open>alpha\<close> selects it.\<close>

function png_rgb_row ::
  "bool \<Rightarrow> bool \<Rightarrow> byte list \<Rightarrow> Color list \<Rightarrow> int \<Rightarrow> int \<Rightarrow> int \<Rightarrow> byte list \<Rightarrow> byte list option option" where
  "png_rgb_row alpha useTransparency pixels palette width y x idat =
     (if x < width then
        (case load pixels (idx32 (y * width + x)) of
           None \<Rightarrow> None
         | Some idx \<Rightarrow>
             (case grow idat
                     ([col_r (palette ! unat idx), col_g (palette ! unat idx),
                       col_b (palette ! unat idx)]
                      @ (if alpha then [if useTransparency \<and> idx = 0 then 0 else 255] else [])) of
                None \<Rightarrow> Some None
              | Some idat' \<Rightarrow>
                  png_rgb_row alpha useTransparency pixels palette width y (x + 1) idat'))
      else Some (Some idat))"
  by pat_completeness auto
termination
  by (relation "measure (\<lambda>(alpha, useTransparency, pixels, palette, width, y, x, idat). nat (width - x))")
     auto

function png_rgb_rows ::
  "bool \<Rightarrow> bool \<Rightarrow> byte list \<Rightarrow> Color list \<Rightarrow> int \<Rightarrow> int \<Rightarrow> int \<Rightarrow> byte list \<Rightarrow> byte list option option" where
  "png_rgb_rows alpha useTransparency pixels palette width height y idat =
     (if y < height then
        (case grow idat [0] of
           None \<Rightarrow> Some None
         | Some idat1 \<Rightarrow>
             (case png_rgb_row alpha useTransparency pixels palette width y 0 idat1 of
                None \<Rightarrow> None
              | Some None \<Rightarrow> Some None
              | Some (Some idat') \<Rightarrow>
                  png_rgb_rows alpha useTransparency pixels palette width height (y + 1) idat'))
      else Some (Some idat))"
  by pat_completeness auto
termination
  by (relation "measure (\<lambda>(alpha, useTransparency, pixels, palette, width, height, y, idat). nat (height - y))")
     auto

declare png8_rows.simps [simp del]
declare png_rgb_row.simps [simp del]
declare png_rgb_rows.simps [simp del]

function plte_fill :: "Color list \<Rightarrow> nat \<Rightarrow> byte list \<Rightarrow> byte list" where
  "plte_fill palette i plte =
     (if i < 256 then
        plte_fill palette (i + 1)
          (plte[i * 3 + 0 := col_r (palette ! i), i * 3 + 1 := col_g (palette ! i),
                i * 3 + 2 := col_b (palette ! i)])
      else plte)"
  by pat_completeness auto
termination
  by (relation "measure (\<lambda>(palette, i, plte). 256 - i)") auto

declare plte_fill.simps [simp del]

text \<open>
  The vector \<^verbatim>\<open>png\<close> as it stands before the call of \<^verbatim>\<open>dst.write\<close>.
  \<open>None\<close> is a read outside the raster; \<open>Some None\<close> is a \<^verbatim>\<open>return 1\<close>: after a
  failed \<^verbatim>\<open>deflateInit\<close>, or through an exception of a vector: of
  \<^verbatim>\<open>idat\<close>, whose \<^verbatim>\<open>reserve\<close> is called with \<^verbatim>\<open>pixels.size() + height\<close>
  (computed in \<^verbatim>\<open>size_t\<close>) or with \<^verbatim>\<open>width * height * 3 + height\<close> and
  \<^verbatim>\<open>width * height * 4 + height\<close> (computed in \<^verbatim>\<open>int\<close>); of
  \<^verbatim>\<open>compressed\<close>; or of \<^verbatim>\<open>png\<close> itself, which \<^verbatim>\<open>write_PNG_Chunk\<close> only
  ever extends, so that one of its insertions throws exactly when the whole
  buffer would be longer than \<open>vec_max\<close>. \<open>mode\<close> is the global
  \<^verbatim>\<open>g_default_PNG_Mode\<close>.
\<close>

definition png_assemble ::
  "zlib \<Rightarrow> PNGMode \<Rightarrow> byte list \<Rightarrow> u32 \<Rightarrow> u32 \<Rightarrow> Color list \<Rightarrow> bool \<Rightarrow> byte list option option" where
  "png_assemble z mode pixels width height palette useTransparency =
     (let png = signature;
          ct = (if mode = PNG_8 then 3 else if mode = PNG_24 then 2 else 6);
          ihdr = be32 width @ be32 height @ [8, ct, 0, 0, 0];
          png1 = write_PNG_Chunk png ''IHDR'' (Some ihdr) 13;
          png2 = (if mode = PNG_8 then
                    (let plte = plte_fill palette 0 (replicate 768 0);
                         pngp = write_PNG_Chunk png1 ''PLTE'' (Some plte) 768
                     in if useTransparency
                        then write_PNG_Chunk pngp ''tRNS'' (Some ((replicate 256 255)[0 := 0])) 256
                        else pngp)
                  else png1);
          reserved = (if mode = PNG_8 then idx32 (int (length pixels) + sint height)
                      else if mode = PNG_24
                      then idx32 (sint width * sint height * 3 + sint height)
                      else idx32 (sint width * sint height * 4 + sint height))
      in if reserved > vec_max then Some None
         else
           (case (if mode = PNG_8 then png8_rows pixels (sint width) (sint height) 0 []
                  else if mode = PNG_24
                  then png_rgb_rows False useTransparency pixels palette (sint width) (sint height) 0 []
                  else png_rgb_rows True useTransparency pixels palette (sint width) (sint height) 0 []) of
              None \<Rightarrow> None
            | Some None \<Rightarrow> Some None
            | Some (Some idat) \<Rightarrow>
                if \<not> deflateInit_ok z then Some None
                else
                  (case compressed z idat of
                     None \<Rightarrow> Some None
                   | Some packed \<Rightarrow>
                       (let compSize = length packed;
                            png3 = write_PNG_Chunk png2 ''IDAT'' (Some packed) (of_nat compSize);
                            png4 = write_PNG_Chunk png3 ''IEND'' None 0
                        in if length png4 > vec_max then Some None else Some (Some png4)))))"

definition SaveToPNG ::
  "zlib \<Rightarrow> PNGMode \<Rightarrow> dstream \<Rightarrow> byte list \<Rightarrow> u32 \<Rightarrow> u32 \<Rightarrow> Color list \<Rightarrow> bool \<Rightarrow> (int \<times> dstream) option" where
  "SaveToPNG z mode dst pixels width height palette useTransparency =
     (case png_assemble z mode pixels width height palette useTransparency of
        None \<Rightarrow> None
      | Some None \<Rightarrow> Some (1, dst)
      | Some (Some png) \<Rightarrow> (case dwrite dst png of (n, dst') \<Rightarrow> Some (0, dst')))"

section \<open>\<^verbatim>\<open>ConvertPID\<close>\<close>

definition parse_header :: "byte list \<Rightarrow> PIDHeader" where
  "parse_header bs =
     \<lparr>ID = word_of_le (take 4 bs),
      Flags = word_of_le (take 4 (drop 4 bs)),
      Width = word_of_le (take 4 (drop 8 bs)),
      Height = word_of_le (take 4 (drop 12 bs)),
      U = map (\<lambda>k. word_of_le (take 4 (drop (16 + 4 * k) bs))) [0..<4]\<rparr>"

text \<open>\<^verbatim>\<open>static_cast<std::size_t>(header.Width) * static_cast<std::size_t>(header.Height)\<close>
  with the 32-bit \<^verbatim>\<open>size_t\<close> of the target.\<close>

definition pixel_count :: "PIDHeader \<Rightarrow> u32" where
  "pixel_count header = Width header * Height header"

text \<open>
  The conversion. The result \<open>Some (r, dst')\<close> is the value \<open>r\<close> the function
  returns (0 for success, 1 for failure) with the destination stream as it leaves
  it; \<open>None\<close> is a run that reads or writes outside a vector. \<open>z\<close> and \<open>mode\<close>
  stand for zlib and the global \<^verbatim>\<open>g_default_PNG_Mode\<close>. Allocation is taken to
  succeed, and the streams are taken to be non-null.
\<close>

definition ConvertPID ::
  "zlib \<Rightarrow> PNGMode \<Rightarrow> sstream \<Rightarrow> dstream \<Rightarrow> string \<Rightarrow> (int \<times> dstream) option" where
  "ConvertPID z mode srcStream dstStream cnv =
     (case sread srcStream 32 of
        (hbytes, src1) \<Rightarrow>
          if length hbytes \<noteq> 32 then Some (1, dstStream)
          else
            let header = parse_header hbytes in
            if ID header \<noteq> 10 then Some (1, dstStream)
            else if sint (Width header) \<le> 0 \<or> sint (Height header) \<le> 0 then Some (1, dstStream)
            else if unat (pixel_count header) > 2 ^ 30 then Some (1, dstStream)
            else
              let useTransparency = (Flags header AND 0x01 \<noteq> 0);
                  mirror = (Flags header AND 0x08 \<noteq> 0);
                  invert = (Flags header AND 0x10 \<noteq> 0);
                  rleCompression = (Flags header AND 0x20 \<noteq> 0);
                  hasPalette = (Flags header AND 0x80 \<noteq> 0)
              in case resolve_palette hasPalette useTransparency src1 of
                   None \<Rightarrow> Some (1, dstStream)
                 | Some (palette, src2) \<Rightarrow>
                     (case sseek src2 32 soFromBeginning of
                        (res, src3) \<Rightarrow>
                          if res < 0 then Some (1, dstStream)
                          else
                            (case decompress rleCompression src3 (unat (pixel_count header)) of
                               None \<Rightarrow> None
                             | Some (pos, pixels, src4) \<Rightarrow>
                                 if pos \<noteq> length pixels then Some (1, dstStream)
                                 else
                                   (case orient pixels (sint (Width header)) (sint (Height header))
                                           mirror invert of
                                      None \<Rightarrow> None
                                    | Some pixels' \<Rightarrow>
                                        (case (if cnv = ''BMP'' then
                                                 SaveToBMP dstStream pixels' (Width header)
                                                   (Height header) palette useTransparency
                                               else if cnv = ''TGA8'' \<or> cnv = ''TGA'' then
                                                 SaveToTGA dstStream pixels' (Width header)
                                                   (Height header) palette useTransparency
                                               else if cnv = ''PNG'' then
                                                 SaveToPNG z mode dstStream pixels' (Width header)
                                                   (Height header) palette useTransparency
                                               else Some (1, dstStream)) of
                                           None \<Rightarrow> None
                                         | Some (res', dst') \<Rightarrow>
                                             if res' \<noteq> 0 then Some (1, dst') else Some (0, dst'))))))"


section \<open>Observing a run, and inputs for the examples\<close>

definition return_value :: "(int \<times> dstream) option \<Rightarrow> int option" where
  "return_value run = map_option fst run"

text \<open>The bytes the destination has accepted, and the calls of its \<^verbatim>\<open>Write\<close>.\<close>

definition written :: "(int \<times> dstream) option \<Rightarrow> byte list" where
  "written run = (case run of None \<Rightarrow> [] | Some (r, d) \<Rightarrow> dout d)"

definition write_log :: "(int \<times> dstream) option \<Rightarrow> (nat \<times> nat) list" where
  "write_log run = (case run of None \<Rightarrow> [] | Some (r, d) \<Rightarrow> dlog d)"

text \<open>A well-formed header: the magic number 10, the flags, the dimensions, and the
  four unused words.\<close>

definition pid_header :: "u32 \<Rightarrow> u32 \<Rightarrow> u32 \<Rightarrow> byte list" where
  "pid_header flags w h = le32 10 @ le32 flags @ le32 w @ le32 h @ replicate 16 0"

definition pid_file :: "byte list \<Rightarrow> sstream" where
  "pid_file bytes = \<lparr>sdata = bytes, spos = 0\<rparr>"

text \<open>A value for the zlib parameter where a closed statement needs one; the
  results stated with it do not depend on what \<open>deflate\<close> returns. Its
  \<open>deflateBound\<close> leaves room for its \<open>deflate\<close>, which copies the input.\<close>

definition stub_zlib :: zlib where
  "stub_zlib = \<lparr>deflateInit_ok = True, deflateBound = (\<lambda>n. n), deflate = (\<lambda>idat. idat)\<rparr>"

text \<open>Some call of the destination's \<^verbatim>\<open>Write\<close> so far has reported fewer bytes
  than it was asked to write.\<close>

definition short_write :: "dstream \<Rightarrow> bool" where
  "short_write d = (\<exists>e \<in> set (dlog d). snd e < fst e)"

text \<open>
  The header as \<^verbatim>\<open>ConvertPID\<close> reads it from a source, and the run of the raster
  loop that \<^verbatim>\<open>ConvertPID\<close> makes on that source: the loop the header's flag
  selects, on the source positioned at offset 32 (the seek that precedes the loop),
  with a raster of \<open>pixel_count\<close> entries. The result is that of \<open>decompress\<close>:
  the final \<open>pos\<close>, the raster and the stream.
\<close>

definition source_header :: "sstream \<Rightarrow> PIDHeader" where
  "source_header src = parse_header (fst (sread src 32))"

definition decoded :: "sstream \<Rightarrow> (nat \<times> byte list \<times> sstream) option" where
  "decoded src =
     decompress (Flags (source_header src) AND 0x20 \<noteq> 0) (src\<lparr>spos := 32\<rparr>)
       (unat (pixel_count (source_header src)))"

section \<open>Reading a PNG stream back\<close>




section \<open>Rules for evaluating the definitions on concrete inputs\<close>

lemma funpow8: "(f ^^ 8) x = f (f (f (f (f (f (f (f x)))))))"
  by (simp add: numeral_eq_Suc)

lemma replicate_numeral: "replicate (numeral k) x = x # replicate (pred_numeral k) x"
  by (simp add: numeral_eq_Suc)

lemma list_update_numeral: "(x # xs)[numeral k := y] = x # xs[pred_numeral k := y]"
  by (simp add: numeral_eq_Suc)

lemma not_u32: "NOT (x :: u32) = x XOR 0xFFFFFFFF"
proof -
  have "(0xFFFFFFFF :: u32) = - 1" by simp
  then show ?thesis by (simp only: bit.xor_one_right)
qed

lemma ucast_mask8: "(ucast (w :: u32) :: byte) = ucast (w AND 0xFF)"
proof -
  have m: "(0xFF :: u32) = mask 8" by (simp add: mask_eq_exp_minus_1)
  show ?thesis unfolding m by (rule bit_word_eqI) (auto simp: bit_simps)
qed

lemma be32_masked:
  "be32 v = [ucast (drop_bit 24 v AND 0xFF), ucast (drop_bit 16 v AND 0xFF),
             ucast (drop_bit 8 v AND 0xFF), ucast (v AND 0xFF)]"
  unfolding be32_def by (simp add: ucast_mask8[symmetric])

lemma crc32_png_eval:
  "crc32_png data len crc =
     (if len = 0 then crc XOR 0xFFFFFFFF
      else crc_loop (crc XOR 0xFFFFFFFF) (take len data) XOR 0xFFFFFFFF)"
  by (simp add: crc32_png_def not_u32)

lemma write_PNG_Chunk_Some:
  "write_PNG_Chunk buffer type (Some bytes) n =
     (if n > 0
      then buffer @ be32 n @ take 4 (bytes_of type) @ take (unat n) bytes
             @ be32 (crc32_png bytes (unat n) (crc32_png (bytes_of type) 4 0))
      else buffer @ be32 n @ take 4 (bytes_of type) @ be32 (crc32_png (bytes_of type) 4 0))"
  by (simp add: write_PNG_Chunk_def Let_def)

lemma write_PNG_Chunk_None:
  "write_PNG_Chunk buffer type None n =
     buffer @ be32 n @ take 4 (bytes_of type) @ be32 (crc32_png (bytes_of type) 4 0)"
  by (simp add: write_PNG_Chunk_def Let_def)

section \<open>The checksum and the framing of chunks\<close>

lemma crc32_png_zero_bytes: "crc32_png data 0 crc = NOT crc"
  by (simp add: crc32_png_def)

lemma crc_loop_append: "crc_loop crc (xs @ ys) = crc_loop (crc_loop crc xs) ys"
  by (induction xs arbitrary: crc) (simp_all add: crc_loop.simps)

text \<open>Calling \<^verbatim>\<open>crc32_png\<close> on the payload with the checksum of the type as the
  running value is one pass of the loop over the type followed by the payload.\<close>

lemma crc32_png_chained:
  "0 < len \<Longrightarrow>
   crc32_png bytes len (crc32_png type_bytes 4 0) =
     NOT (crc_loop (NOT 0) (take 4 type_bytes @ take len bytes))"
  by (simp add: crc32_png_def crc_loop_append)

text \<open>The frame of a chunk: length, type, payload, checksum, each four-byte
  number with its most significant byte first.\<close>

lemma write_PNG_Chunk_frame:
  "write_PNG_Chunk buffer type (Some bytes) n =
     buffer @ be32 n @ take 4 (bytes_of type) @ take (unat n) bytes
       @ be32 (NOT (crc_loop (NOT 0) (take 4 (bytes_of type) @ take (unat n) bytes)))"
proof (cases "n > 0")
  case True
  then have "0 < unat n" by (simp add: word_less_nat_alt)
  with True show ?thesis
    by (simp add: write_PNG_Chunk_Some crc32_png_chained)
next
  case False
  then have "n = 0" by (simp add: word_greater_zero_iff)
  then show ?thesis
    by (simp add: write_PNG_Chunk_Some crc32_png_def crc_loop.simps)
qed

lemma write_PNG_Chunk_frame_null:
  "write_PNG_Chunk buffer type None n =
     buffer @ be32 n @ take 4 (bytes_of type)
       @ be32 (NOT (crc_loop (NOT 0) (take 4 (bytes_of type))))"
  by (simp add: write_PNG_Chunk_None crc32_png_def)

text \<open>The table of the source against the standard table: entry 154 differs
  (\<open>0x10da7a56\<close> in the source, \<open>0x10da7a5a\<close> in the standard), every other
  entry agrees.\<close>

lemma length_crc_table: "length crc_table = 256"
  by (simp add: crc_table_def)

lemma crc_table_154: "crc_table ! 154 = 0x10da7a56"
  by (simp add: crc_table_def)

lemma spec_crc_entry_154: "spec_crc_entry 154 = 0x10da7a5a"
  by (simp add: spec_crc_entry_def spec_crc_bit_def funpow8)

lemma crc_table_low: "take 154 crc_table = map spec_crc_entry [0..<154]"
  by (simp add: crc_table_def spec_crc_entry_def spec_crc_bit_def funpow8 upt_rec)

lemma crc_table_high: "drop 155 crc_table = map spec_crc_entry [155..<256]"
  by (simp add: crc_table_def spec_crc_entry_def spec_crc_bit_def funpow8 upt_rec)

lemma nth_of_take_map:
  "take k xs = map f [0..<k] \<Longrightarrow> n < k \<Longrightarrow> xs ! n = f n"
proof -
  assume t: "take k xs = map f [0..<k]" and n: "n < k"
  have "xs ! n = take k xs ! n" using n by simp
  also have "\<dots> = f n" using n by (simp add: t)
  finally show ?thesis .
qed

lemma nth_of_drop_map:
  "drop k xs = map f [k..<m] \<Longrightarrow> k \<le> n \<Longrightarrow> n < m \<Longrightarrow> m \<le> length xs \<Longrightarrow> xs ! n = f n"
proof -
  assume d: "drop k xs = map f [k..<m]" and n: "k \<le> n" "n < m" "m \<le> length xs"
  have "xs ! n = drop k xs ! (n - k)" using n by simp
  also have "\<dots> = f n" using n by (simp add: d)
  finally show ?thesis .
qed

lemma crc_table_standard_elsewhere:
  assumes "n < 256" and "n \<noteq> 154"
  shows "crc_table ! n = spec_crc_entry n"
proof (cases "n < 154")
  case True
  then show ?thesis by (rule nth_of_take_map[OF crc_table_low])
next
  case False
  with assms have n: "155 \<le> n" "n < 256" by simp_all
  show ?thesis
    by (rule nth_of_drop_map[OF crc_table_high n]) (simp add: length_crc_table)
qed

text \<open>
  C8. The claim: every chunk is framed as length, type, payload and a CRC-32 over
  type and payload computed with the standard PNG/zlib table, and the routine on zero
  bytes returns the complement of the running value. The frame
  (\<open>write_PNG_Chunk_frame\<close>) and the zero-byte case (\<open>crc32_png_zero_bytes\<close>) hold,
  but entry 154 of the table in the source is not the standard one
  (\<open>crc_table_154\<close>, \<open>spec_crc_entry_154\<close>), so the checksum is wrong whenever a byte
  selects that entry. It happens for the IHDR chunk of an image 6 pixels wide and 1
  pixel high in the 8-bit mode: the source writes the checksum \<open>0x66A260CE\<close>, the
  CRC-32 of the same 17 bytes is \<open>0xCA172FC2\<close>.
\<close>

theorem C8_ihdr_checksum_not_crc32:
  "write_PNG_Chunk [] ''IHDR'' (Some (be32 6 @ be32 1 @ [8, 3, 0, 0, 0])) 13 =
     [0, 0, 0, 13, 73, 72, 68, 82, 0, 0, 0, 6, 0, 0, 0, 1, 8, 3, 0, 0, 0,
      0x66, 0xA2, 0x60, 0xCE]
   \<and> be32 (spec_crc32 (bytes_of ''IHDR'' @ be32 6 @ be32 1 @ [8, 3, 0, 0, 0])) =
     [0xCA, 0x17, 0x2F, 0xC2]"
proof -
  have t: "crc32_png [73, 72, 68, 82] 4 0 = 0xA8A1AE0A"
    by (simp add: crc32_png_eval crc_loop.simps crc_table_def)
  have d: "crc32_png [0, 0, 0, 6, 0, 0, 0, 1, 8, 3, 0, 0, 0] 13 0xA8A1AE0A = 0x66A260CE"
    by (simp add: crc32_png_eval crc_loop.simps crc_table_def)
  have code: "write_PNG_Chunk [] ''IHDR'' (Some (be32 6 @ be32 1 @ [8, 3, 0, 0, 0])) 13 =
     [0, 0, 0, 13, 73, 72, 68, 82, 0, 0, 0, 6, 0, 0, 0, 1, 8, 3, 0, 0, 0,
      0x66, 0xA2, 0x60, 0xCE]"
    by (simp add: write_PNG_Chunk_Some bytes_of_def be32_masked t d)
  have "spec_crc32 [73, 72, 68, 82, 0, 0, 0, 6, 0, 0, 0, 1, 8, 3, 0, 0, 0] = 0xCA172FC2"
    by (simp add: spec_crc32_def spec_crc_byte_def spec_crc_entry_def spec_crc_bit_def
        funpow8 not_u32)
  then have spec: "be32 (spec_crc32 (bytes_of ''IHDR'' @ be32 6 @ be32 1 @ [8, 3, 0, 0, 0])) =
     [0xCA, 0x17, 0x2F, 0xC2]"
    by (simp add: bytes_of_def be32_masked)
  from code spec show ?thesis by (rule conjI)
qed


section \<open>The decoder loops in closed form\<close>

lemma take_Suc_update: "pos < length xs \<Longrightarrow> take (Suc pos) (xs[pos := v]) = take pos xs @ [v]"
  by (simp add: take_Suc_conv_app_nth)

lemma fill_run_eq:
  "pos \<le> length pixels \<Longrightarrow>
   fill_run i count v pos pixels =
     Some (pos + min (count - i) (length pixels - pos),
           take pos pixels @ replicate (min (count - i) (length pixels - pos)) v
             @ drop (pos + min (count - i) (length pixels - pos)) pixels)"
proof (induction i count v pos pixels rule: fill_run.induct)
  case (1 i count fill pos pixels)
  show ?case
  proof (cases "i < count \<and> pos < length pixels")
    case False
    then have "min (count - i) (length pixels - pos) = 0" using "1.prems" by auto
    with False show ?thesis by (auto simp: fill_run.simps[of i])
  next
    case True
    let ?px = "pixels[pos := fill]"
    let ?m = "min (count - i) (length pixels - pos)"
    let ?m' = "min (count - (i + 1)) (length ?px - (pos + 1))"
    have m: "?m = Suc ?m'" using True by auto
    have st: "store pixels pos fill = Some ?px" using True by (simp add: store_def)
    have IH: "fill_run (i + 1) count fill (pos + 1) ?px =
        Some (pos + 1 + ?m', take (pos + 1) ?px @ replicate ?m' fill @ drop (pos + 1 + ?m') ?px)"
      using True by (intro "1.IH"[OF True st]) simp
    have "fill_run i count fill pos pixels = fill_run (i + 1) count fill (pos + 1) ?px"
      using True st by (simp add: fill_run.simps[of i])
    also note IH
    also have "pos + 1 + ?m' = pos + ?m" using m by simp
    also have "take (pos + 1) ?px @ replicate ?m' fill @ drop (pos + ?m) ?px
        = take pos pixels @ replicate ?m fill @ drop (pos + ?m) pixels"
      using True m by (simp add: take_Suc_update)
    finally show ?thesis .
  qed
qed

lemma lit_run_eq:
  "pos \<le> length pixels \<Longrightarrow>
   lit_run i A s pos pixels =
     (let m = min (A - i) (length pixels - pos); rest = drop (spos s) (sdata s) in
      if m \<le> length rest
      then Some (s\<lparr>spos := spos s + m\<rparr>, pos + m,
                 take pos pixels @ take m rest @ drop (pos + m) pixels)
      else Some (s\<lparr>spos := spos s + length rest\<rparr>, SIZE_MAX,
                 take pos pixels @ rest @ drop (pos + length rest) pixels))"
proof (induction i A s pos pixels rule: lit_run.induct)
  case (1 i A s pos pixels)
  let ?m = "min (A - i) (length pixels - pos)"
  let ?rest = "drop (spos s) (sdata s)"
  show ?case
  proof (cases "i < A \<and> pos < length pixels")
    case False
    then have "?m = 0" using "1.prems" by auto
    with False show ?thesis by (auto simp: lit_run.simps[of i] Let_def)
  next
    case True
    then have m0: "0 < ?m" by auto
    show ?thesis
    proof (cases "spos s < length (sdata s)")
      case False
      then have "?rest = []" by simp
      moreover have "?m \<noteq> 0" using m0 by simp
      ultimately show ?thesis using True False
        by (auto simp: lit_run.simps[of i] read_byte_eq Let_def)
    next
      case avail: True
      let ?B = "sdata s ! spos s"
      let ?s1 = "s\<lparr>spos := spos s + 1\<rparr>"
      let ?px = "pixels[pos := ?B]"
      let ?m' = "min (A - (i + 1)) (length ?px - (pos + 1))"
      let ?rest' = "drop (spos ?s1) (sdata ?s1)"
      have m: "?m = Suc ?m'" using True by auto
      have rest: "?rest = ?B # ?rest'" using avail by (simp add: Cons_nth_drop_Suc)
      have rb: "read_byte s = Some (?B, ?s1)" using avail by (simp add: read_byte_eq)
      have st: "store pixels pos ?B = Some ?px" using True by (simp add: store_def)
      have step: "lit_run i A s pos pixels = lit_run (i + 1) A ?s1 (pos + 1) ?px"
        using True rb st by (simp add: lit_run.simps[of i])
      have IH: "lit_run (i + 1) A ?s1 (pos + 1) ?px =
        (let m = ?m'; rest = ?rest' in
         if m \<le> length rest
         then Some (?s1\<lparr>spos := spos ?s1 + m\<rparr>, pos + 1 + m,
                    take (pos + 1) ?px @ take m rest @ drop (pos + 1 + m) ?px)
         else Some (?s1\<lparr>spos := spos ?s1 + length rest\<rparr>, SIZE_MAX,
                    take (pos + 1) ?px @ rest @ drop (pos + 1 + length rest) ?px))"
        using True by (intro "1.IH"[OF True rb _ st]) simp_all
      have tk: "take (pos + 1) ?px = take pos pixels @ [?B]"
        using True by (simp add: take_Suc_update)
      show ?thesis
        unfolding step IH
        using True m rest tk by (simp add: Let_def)
    qed
  qed
qed

lemma rle_step:
  assumes "pos < length pixels" and "length pixels < SIZE_MAX"
    and "read_byte s = Some (A, s1)"
  shows "rle_loop s pos pixels =
     (if A > 128 then
        (let m = min (unat A - 128) (length pixels - pos) in
         rle_loop s1 (pos + m) (take pos pixels @ replicate m 0 @ drop (pos + m) pixels))
      else
        (let m = min (unat A) (length pixels - pos); rest = drop (spos s1) (sdata s1) in
         if m \<le> length rest
         then rle_loop (s1\<lparr>spos := spos s1 + m\<rparr>) (pos + m)
                (take pos pixels @ take m rest @ drop (pos + m) pixels)
         else Some (SIZE_MAX, take pos pixels @ rest @ drop (pos + length rest) pixels,
                    s1\<lparr>spos := spos s1 + length rest\<rparr>)))"
proof -
  have le: "pos \<le> length pixels" using assms(1) by simp
  have ne: "pos + min k (length pixels - pos) \<noteq> SIZE_MAX" for k
    using assms(1,2) by simp
  show ?thesis
    using assms(1,3) ne
    by (simp add: rle_loop.simps[of s pos pixels] fill_run_eq[OF le] lit_run_eq[OF le] Let_def)
qed

lemma raw_step:
  assumes "pos < length pixels" and "read_byte s = Some (A, s1)"
  shows "raw_loop s pos pixels =
     (if A > 192 then
        (case read_byte s1 of
           None \<Rightarrow> Some (pos, pixels, s1)
         | Some (B, s2) \<Rightarrow>
             (let m = min (unat A - 192) (length pixels - pos) in
              raw_loop s2 (pos + m) (take pos pixels @ replicate m B @ drop (pos + m) pixels)))
      else raw_loop s1 (pos + 1) (pixels[pos := A]))"
proof -
  have le: "pos \<le> length pixels" using assms(1) by simp
  have one: "take pos pixels @ [A] @ drop (pos + 1) pixels = pixels[pos := A]"
    using assms(1) by (simp add: upd_conv_take_nth_drop)
  have m1: "min (Suc 0) (length pixels - pos) = 1" using assms(1) by simp
  show ?thesis
    using assms one m1
    by (simp add: raw_loop.simps[of s pos pixels] fill_run_eq[OF le] Let_def
        split: option.split)
qed




section \<open>The two grammars\<close>

lemma rle_loop_done: "\<not> pos < length pixels \<Longrightarrow> rle_loop s pos pixels = Some (pos, pixels, s)"
  by (simp add: rle_loop.simps[of s])

text \<open>
  C2. The claim: with the compression flag set, a control byte \<open>A > 128\<close> emits
  \<open>A - 128\<close> pixels of value 0, and a control byte \<open>A \<le> 128\<close> reads \<open>A\<close> bytes and
  emits each. Both loops of the source also test \<^verbatim>\<open>pos < pixels.size()\<close>: a run
  stops at the end of the raster. With a raster of one pixel the control byte
  \<open>0x85\<close> emits one pixel, not five, and the control byte 3 followed by three
  bytes reads one of them (the cursor stands at 2), not three.
\<close>

theorem C2_run_longer_than_raster_counterexample:
  "decompress True \<lparr>sdata = [0x85], spos = 0\<rparr> 1 = Some (1, [0], \<lparr>sdata = [0x85], spos = 1\<rparr>)
   \<and> unat (0x85 :: byte) - 128 = 5
   \<and> decompress True \<lparr>sdata = [3, 9, 8, 7], spos = 0\<rparr> 1 =
       Some (1, [9], \<lparr>sdata = [3, 9, 8, 7], spos = 2\<rparr>)"
  by (simp add: decompress_def rle_loop.simps fill_run.simps lit_run.simps read_byte_eq store_def
      SIZE_MAX_def)

text \<open>
  C2, amended. The decoder selected by the set flag is \<open>rle_loop\<close> from \<open>pos = 0\<close>
  on the zeroed raster. One round of it on the control byte \<open>A\<close>, read while the
  raster is not full: for \<open>A > 128\<close> it stores \<open>m\<close> pixels of value 0 and goes on
  with the byte after \<open>A\<close>, no data byte being read; for \<open>A \<le> 128\<close> it reads \<open>m\<close>
  bytes and stores each as it is (none for \<open>A = 0\<close>), and fails with
  \<open>pos = SIZE_MAX\<close> when the stream ends first. \<open>m\<close> is the count of the run,
  \<open>A - 128\<close> or \<open>A\<close>, or the room left in the raster when that is less. A raster
  of two pixels and the stream \<open>0x82\<close> alone give two pixels of value 0.
\<close>

theorem C2_rle_control_byte:
  assumes "pos < length pixels" and "length pixels < SIZE_MAX"
    and "read_byte s = Some (A, s1)"
  shows "decompress True s0 n = rle_loop s0 0 (replicate n 0)
   \<and> rle_loop s pos pixels =
     (if A > 128 then
        (let m = min (unat A - 128) (length pixels - pos) in
         rle_loop s1 (pos + m) (take pos pixels @ replicate m 0 @ drop (pos + m) pixels))
      else
        (let m = min (unat A) (length pixels - pos); rest = drop (spos s1) (sdata s1) in
         if m \<le> length rest
         then rle_loop (s1\<lparr>spos := spos s1 + m\<rparr>) (pos + m)
                (take pos pixels @ take m rest @ drop (pos + m) pixels)
         else Some (SIZE_MAX, take pos pixels @ rest @ drop (pos + length rest) pixels,
                    s1\<lparr>spos := spos s1 + length rest\<rparr>)))
   \<and> decompress True \<lparr>sdata = [0x82], spos = 0\<rparr> 2 =
       Some (2, [0, 0], \<lparr>sdata = [0x82], spos = 1\<rparr>)"
proof (intro conjI)
  show "decompress True s0 n = rle_loop s0 0 (replicate n 0)"
    by (simp add: decompress_def)
  show "rle_loop s pos pixels =
     (if A > 128 then
        (let m = min (unat A - 128) (length pixels - pos) in
         rle_loop s1 (pos + m) (take pos pixels @ replicate m 0 @ drop (pos + m) pixels))
      else
        (let m = min (unat A) (length pixels - pos); rest = drop (spos s1) (sdata s1) in
         if m \<le> length rest
         then rle_loop (s1\<lparr>spos := spos s1 + m\<rparr>) (pos + m)
                (take pos pixels @ take m rest @ drop (pos + m) pixels)
         else Some (SIZE_MAX, take pos pixels @ rest @ drop (pos + length rest) pixels,
                    s1\<lparr>spos := spos s1 + length rest\<rparr>)))"
    by (rule rle_step[OF assms])
  show "decompress True \<lparr>sdata = [0x82], spos = 0\<rparr> 2 =
       Some (2, [0, 0], \<lparr>sdata = [0x82], spos = 1\<rparr>)"
    by (simp add: decompress_def rle_loop.simps fill_run.simps read_byte_eq store_def
        replicate_numeral)
qed

text \<open>The theorem at a fill run and at a literal run, both inside the raster, and
  at the decoder as the flag selects it.\<close>

theorem C2_rle_control_byte_witness:
  "(1 :: nat) < length [7, 7, 7 :: byte] \<and> length [7, 7, 7 :: byte] < SIZE_MAX
   \<and> read_byte \<lparr>sdata = [0x82, 2, 9, 8], spos = 0\<rparr> = Some (0x82, \<lparr>sdata = [0x82, 2, 9, 8], spos = 1\<rparr>)
   \<and> rle_loop \<lparr>sdata = [0x82, 2, 9, 8], spos = 0\<rparr> 1 [7, 7, 7] =
       Some (3, [7, 0, 0], \<lparr>sdata = [0x82, 2, 9, 8], spos = 1\<rparr>)
   \<and> (0 :: nat) < length [7, 7, 7 :: byte]
   \<and> read_byte \<lparr>sdata = [0x82, 2, 9, 8], spos = 1\<rparr> = Some (2, \<lparr>sdata = [0x82, 2, 9, 8], spos = 2\<rparr>)
   \<and> rle_loop \<lparr>sdata = [0x82, 2, 9, 8], spos = 1\<rparr> 0 [7, 7, 7] =
       Some (2, [9, 8, 7], \<lparr>sdata = [0x82, 2, 9, 8], spos = 4\<rparr>)
   \<and> decompress True \<lparr>sdata = [2, 9, 8, 0x81], spos = 0\<rparr> 3 =
       rle_loop \<lparr>sdata = [2, 9, 8, 0x81], spos = 0\<rparr> 0 [0, 0, 0]"
proof -
  let ?d = "[0x82, 2, 9, 8] :: byte list"
  have h1: "(1 :: nat) < length [7, 7, 7 :: byte]" by simp
  have h0: "(0 :: nat) < length [7, 7, 7 :: byte]" by simp
  have h2: "length [7, 7, 7 :: byte] < SIZE_MAX" by (simp add: SIZE_MAX_def)
  have h3: "read_byte \<lparr>sdata = ?d, spos = 0\<rparr> = Some (0x82, \<lparr>sdata = ?d, spos = 1\<rparr>)"
    by (simp add: read_byte_eq)
  have h4: "read_byte \<lparr>sdata = ?d, spos = 1\<rparr> = Some (2, \<lparr>sdata = ?d, spos = 2\<rparr>)"
    by (simp add: read_byte_eq)
  note fill = C2_rle_control_byte[OF h1 h2 h3, of "\<lparr>sdata = [2, 9, 8, 0x81], spos = 0\<rparr>" 3]
  note lit = C2_rle_control_byte[OF h0 h2 h4, of "\<lparr>sdata = [2, 9, 8, 0x81], spos = 0\<rparr>" 3]
  have a: "rle_loop \<lparr>sdata = ?d, spos = 0\<rparr> 1 [7, 7, 7] = Some (3, [7, 0, 0], \<lparr>sdata = ?d, spos = 1\<rparr>)"
    using fill[THEN conjunct2, THEN conjunct1] by (simp add: rle_loop_done replicate_numeral)
  have b: "rle_loop \<lparr>sdata = ?d, spos = 1\<rparr> 0 [7, 7, 7] = Some (2, [9, 8, 7], \<lparr>sdata = ?d, spos = 4\<rparr>)"
    using lit[THEN conjunct2, THEN conjunct1]
    by (simp add: rle_loop.simps[of _ "Suc (Suc 0)"] read_byte_eq)
  have c: "decompress True \<lparr>sdata = [2, 9, 8, 0x81], spos = 0\<rparr> 3 =
       rle_loop \<lparr>sdata = [2, 9, 8, 0x81], spos = 0\<rparr> 0 [0, 0, 0]"
    using fill[THEN conjunct1] by (simp add: replicate_numeral)
  from h1 h2 h3 a h0 h4 b c show ?thesis by simp
qed

text \<open>
  C3. The claim: with the compression flag clear, a control byte \<open>A > 192\<close> followed
  by \<open>B\<close> emits \<open>A - 192\<close> pixels of value \<open>B\<close>. The loop of the source also tests
  \<^verbatim>\<open>pos < pixels.size()\<close>: with a raster of one pixel the bytes \<open>0xC9, 5\<close> emit
  one pixel of value 5, not nine.
\<close>

theorem C3_run_longer_than_raster_counterexample:
  "decompress False \<lparr>sdata = [0xC9, 5], spos = 0\<rparr> 1 =
     Some (1, [5], \<lparr>sdata = [0xC9, 5], spos = 2\<rparr>)
   \<and> unat (0xC9 :: byte) - 192 = 9"
  by (simp add: decompress_def raw_loop.simps fill_run.simps read_byte_eq store_def)

text \<open>
  C3, amended. The decoder selected by the clear flag is \<open>raw_loop\<close> from \<open>pos = 0\<close>
  on the zeroed raster. One round of it on the control byte \<open>A\<close>, read while the
  raster is not full: for \<open>A > 192\<close> it reads one more byte \<open>B\<close> and stores \<open>m\<close>
  pixels of value \<open>B\<close>, where \<open>m\<close> is \<open>A - 192\<close> or the room left in the raster when
  that is less, and it leaves the loop when \<open>B\<close> cannot be read; for \<open>A \<le> 192\<close> it
  stores the one pixel \<open>A\<close>. A raster of five pixels and the bytes \<open>0xC5, 0x07\<close>
  give five pixels of value 7.
\<close>

theorem C3_raw_control_byte:
  assumes "pos < length pixels" and "read_byte s = Some (A, s1)"
  shows "decompress False s0 n = raw_loop s0 0 (replicate n 0)
   \<and> raw_loop s pos pixels =
     (if A > 192 then
        (case read_byte s1 of
           None \<Rightarrow> Some (pos, pixels, s1)
         | Some (B, s2) \<Rightarrow>
             (let m = min (unat A - 192) (length pixels - pos) in
              raw_loop s2 (pos + m) (take pos pixels @ replicate m B @ drop (pos + m) pixels)))
      else raw_loop s1 (pos + 1) (pixels[pos := A]))
   \<and> decompress False \<lparr>sdata = [0xC5, 0x07], spos = 0\<rparr> 5 =
       Some (5, [7, 7, 7, 7, 7], \<lparr>sdata = [0xC5, 0x07], spos = 2\<rparr>)"
proof (intro conjI)
  show "decompress False s0 n = raw_loop s0 0 (replicate n 0)"
    by (simp add: decompress_def)
  show "raw_loop s pos pixels =
     (if A > 192 then
        (case read_byte s1 of
           None \<Rightarrow> Some (pos, pixels, s1)
         | Some (B, s2) \<Rightarrow>
             (let m = min (unat A - 192) (length pixels - pos) in
              raw_loop s2 (pos + m) (take pos pixels @ replicate m B @ drop (pos + m) pixels)))
      else raw_loop s1 (pos + 1) (pixels[pos := A]))"
    by (rule raw_step[OF assms])
  show "decompress False \<lparr>sdata = [0xC5, 0x07], spos = 0\<rparr> 5 =
       Some (5, [7, 7, 7, 7, 7], \<lparr>sdata = [0xC5, 0x07], spos = 2\<rparr>)"
    by (simp add: decompress_def raw_loop.simps fill_run.simps read_byte_eq store_def
        replicate_numeral)
qed

text \<open>The theorem at a run of two pixels of value 9, followed by the single pixel
  \<open>0xC0\<close>, and at the decoder as the flag selects it.\<close>

theorem C3_raw_control_byte_witness:
  "(1 :: nat) < length [0, 0, 0, 0 :: byte]
   \<and> read_byte \<lparr>sdata = [0xC2, 9, 0xC0], spos = 0\<rparr> = Some (0xC2, \<lparr>sdata = [0xC2, 9, 0xC0], spos = 1\<rparr>)
   \<and> raw_loop \<lparr>sdata = [0xC2, 9, 0xC0], spos = 0\<rparr> 1 [0, 0, 0, 0] =
       Some (4, [0, 9, 9, 192], \<lparr>sdata = [0xC2, 9, 0xC0], spos = 3\<rparr>)
   \<and> decompress False \<lparr>sdata = [0xC2, 9, 0xC0], spos = 0\<rparr> 3 =
       raw_loop \<lparr>sdata = [0xC2, 9, 0xC0], spos = 0\<rparr> 0 [0, 0, 0]"
proof -
  let ?d = "[0xC2, 9, 0xC0] :: byte list"
  have h1: "(1 :: nat) < length [0, 0, 0, 0 :: byte]" by simp
  have h2: "read_byte \<lparr>sdata = ?d, spos = 0\<rparr> = Some (0xC2, \<lparr>sdata = ?d, spos = 1\<rparr>)"
    by (simp add: read_byte_eq)
  note run = C3_raw_control_byte[OF h1 h2, of "\<lparr>sdata = ?d, spos = 0\<rparr>" 3]
  have a: "raw_loop \<lparr>sdata = ?d, spos = 0\<rparr> 1 [0, 0, 0, 0] =
       Some (4, [0, 9, 9, 192], \<lparr>sdata = ?d, spos = 3\<rparr>)"
    using run[THEN conjunct2, THEN conjunct1]
    by (simp add: read_byte_eq replicate_numeral raw_loop.simps[of _ "Suc (Suc (Suc 0))"]
        raw_loop.simps[of _ "Suc (Suc (Suc (Suc 0)))"] fill_run.simps store_def)
  have b: "decompress False \<lparr>sdata = ?d, spos = 0\<rparr> 3 =
       raw_loop \<lparr>sdata = ?d, spos = 0\<rparr> 0 [0, 0, 0]"
    using run[THEN conjunct1] by (simp add: replicate_numeral)
  from h1 h2 a b show ?thesis by simp
qed

section \<open>Whole conversions\<close>

lemmas conv_eval = write_seq.simps ConvertPID_def sread_def parse_header_def word_of_le_def pixel_count_def
  resolve_palette_def sseek_def decompress_def read_byte_eq store_def orient_def
  black_palette_def write_ok_def dwrite_def le32_def le16_def bytes_of_def
  load_def idx32_def seek_abs_def Let_def list_update_numeral
  defaultPalette_def mk_color_def pid_file_def vec_max_def
  return_value_def written_def write_log_def

lemma pid_header_bytes:
  "pid_header flags w h =
     le32 10 @ le32 flags @ le32 w @ le32 h @ [0, 0, 0, 0, 0, 0, 0, 0, 0, 0, 0, 0, 0, 0, 0, 0]"
  by (simp add: pid_header_def replicate_numeral)

lemma bmp_1x1_return:
  "return_value (ConvertPID stub_zlib PNG_8 (pid_file (pid_header 0 1 1 @ [0x05])) fresh_dst ''BMP'')
     = Some 0"
  by (simp add: conv_eval pid_header_bytes replicate_numeral raw_loop.simps fill_run.simps
      SaveToBMP_def bmp_rows.simps bmp_fill_row.simps fresh_dst_def)

lemma bmp_1x1_written:
  "written (ConvertPID stub_zlib PNG_8 (pid_file (pid_header 0 1 1 @ [0x05])) fresh_dst ''BMP'') =
     [66, 77, 58, 0, 0, 0, 0, 0, 0, 0, 54, 0, 0, 0,
      40, 0, 0, 0, 1, 0, 0, 0, 1, 0, 0, 0, 1, 0, 24, 0, 0, 0, 0, 0, 4, 0, 0, 0,
      0, 0, 0, 0, 0, 0, 0, 0, 0, 0, 0, 0, 0, 0, 0, 0,
      128, 0, 128, 0]"
  by (simp add: conv_eval pid_header_bytes replicate_numeral raw_loop.simps fill_run.simps
      SaveToBMP_def bmp_rows.simps bmp_fill_row.simps fresh_dst_def)

lemma defaultPalette_5:
  "[col_b (defaultPalette ! 5), col_g (defaultPalette ! 5), col_r (defaultPalette ! 5)] = [128, 0, 128]"
  by (simp add: defaultPalette_def mk_color_def)

text \<open>
  C4. The claim: a 1\<times>1 PID with flags 0 and the pixel byte \<open>0x05\<close>, converted to
  BMP, gives 58 bytes whose last three are the B, G, R components of
  \<open>defaultPalette[5]\<close>. The conversion succeeds and writes 58 bytes, but the row is
  B, G, R followed by one byte of padding, so the last three bytes are G, R and the
  padding: \<open>0, 128, 0\<close>, where B, G, R are \<open>128, 0, 128\<close>.
\<close>

theorem C4_last_three_bytes_counterexample:
  "return_value (ConvertPID stub_zlib PNG_8 (pid_file (pid_header 0 1 1 @ [0x05])) fresh_dst ''BMP'')
     = Some 0
   \<and> length (written (ConvertPID stub_zlib PNG_8 (pid_file (pid_header 0 1 1 @ [0x05])) fresh_dst ''BMP'')) = 58
   \<and> drop 55 (written (ConvertPID stub_zlib PNG_8 (pid_file (pid_header 0 1 1 @ [0x05])) fresh_dst ''BMP''))
     = [0, 128, 0]
   \<and> drop 55 (written (ConvertPID stub_zlib PNG_8 (pid_file (pid_header 0 1 1 @ [0x05])) fresh_dst ''BMP''))
     \<noteq> [col_b (defaultPalette ! 5), col_g (defaultPalette ! 5), col_r (defaultPalette ! 5)]"
  by (simp add: bmp_1x1_return bmp_1x1_written defaultPalette_5)

text \<open>
  C4, amended: the conversion returns 0 and writes exactly 58 bytes; the three bytes
  at offsets 54 to 56, the first of the pixel row, are the B, G, R components of
  \<open>defaultPalette[5]\<close>, and the last byte is the padding 0.
\<close>

theorem C4_bmp_1x1:
  "return_value (ConvertPID stub_zlib PNG_8 (pid_file (pid_header 0 1 1 @ [0x05])) fresh_dst ''BMP'')
     = Some 0
   \<and> length (written (ConvertPID stub_zlib PNG_8 (pid_file (pid_header 0 1 1 @ [0x05])) fresh_dst ''BMP'')) = 58
   \<and> take 3 (drop 54 (written (ConvertPID stub_zlib PNG_8 (pid_file (pid_header 0 1 1 @ [0x05])) fresh_dst ''BMP'')))
     = [col_b (defaultPalette ! 5), col_g (defaultPalette ! 5), col_r (defaultPalette ! 5)]
   \<and> drop 57 (written (ConvertPID stub_zlib PNG_8 (pid_file (pid_header 0 1 1 @ [0x05])) fresh_dst ''BMP''))
     = [0]"
  by (simp add: bmp_1x1_return bmp_1x1_written defaultPalette_5)

text \<open>
  C5. The claim: a header with the magic number and positive dimensions whose product
  exceeds \<open>2^30\<close> makes \<open>ConvertPID\<close> fail before the raster is allocated or
  decoded. The product is computed in \<^verbatim>\<open>size_t\<close>, 32 bits wide on the target, and
  wraps: for 65536\<times>65536 it is \<open>2^32\<close>, stored as 0, which passes the test against
  \<open>2^30\<close>. The conversion goes on with an empty raster: with a destination that
  accepts nothing it reaches the encoder and fails only at its first write; with
  one that accepts everything it writes the BMP headers and then reads the raster
  outside its bounds.
\<close>

theorem C5_size_check_wraps:
  "sint (Width (parse_header (pid_header 0 65536 65536)))
     * sint (Height (parse_header (pid_header 0 65536 65536))) = 2 ^ 32
   \<and> unat (pixel_count (parse_header (pid_header 0 65536 65536))) = 0
   \<and> ConvertPID stub_zlib PNG_8 (pid_file (pid_header 0 65536 65536)) full_dst ''BMP'' =
       Some (1, full_dst\<lparr>dlog := [(2, 0)]\<rparr>)
   \<and> ConvertPID stub_zlib PNG_8 (pid_file (pid_header 0 65536 65536)) fresh_dst ''BMP'' = None"
proof (intro conjI)
  have h: "parse_header (pid_header 0 65536 65536) =
     \<lparr>ID = 10, Flags = 0, Width = 65536, Height = 65536, U = [0, 0, 0, 0]\<rparr>"
    by (simp add: pid_header_bytes parse_header_def word_of_le_def le32_def upt_rec)
  show "sint (Width (parse_header (pid_header 0 65536 65536)))
     * sint (Height (parse_header (pid_header 0 65536 65536))) = 2 ^ 32"
    by (simp add: h)
  show "unat (pixel_count (parse_header (pid_header 0 65536 65536))) = 0"
    by (simp add: h pixel_count_def)
  show "ConvertPID stub_zlib PNG_8 (pid_file (pid_header 0 65536 65536)) full_dst ''BMP'' =
       Some (1, full_dst\<lparr>dlog := [(2, 0)]\<rparr>)"
    by (simp add: conv_eval pid_header_bytes raw_loop.simps SaveToBMP_def full_dst_def)
  show "ConvertPID stub_zlib PNG_8 (pid_file (pid_header 0 65536 65536)) fresh_dst ''BMP'' = None"
    by (simp add: conv_eval pid_header_bytes raw_loop.simps SaveToBMP_def bmp_rows.simps
        bmp_fill_row.simps fresh_dst_def)
qed


section \<open>Short writes\<close>

text \<open>A checked write that succeeds leaves no short write behind; so an encoder
  built from checked writes returns 1 as soon as one write is short.\<close>

lemma dwrite_short:
  "dwrite d buffer = (n, d') \<Longrightarrow> short_write d' = (short_write d \<or> n < length buffer)"
  by (auto simp: dwrite_def short_write_def Let_def split: if_splits)

lemma write_ok_short:
  "write_ok buffer d = (ok, d') \<Longrightarrow> short_write d' = (short_write d \<or> (\<not> ok \<and> fst (dwrite d buffer) < length buffer))"
  by (cases "dwrite d buffer") (auto simp: write_ok_def dest: dwrite_short)

lemma write_ok_True_short:
  "write_ok buffer d = (True, d') \<Longrightarrow> short_write d' = short_write d"
  by (drule write_ok_short) simp

lemma write_seq_short:
  "write_seq bufs d = (True, d') \<Longrightarrow> short_write d' = short_write d"
proof (induction bufs arbitrary: d)
  case Nil
  then show ?case by (simp add: write_seq.simps)
next
  case (Cons b bs)
  obtain ok d1 where w: "write_ok b d = (ok, d1)" by (cases "write_ok b d")
  with Cons.prems have ok: "ok" and rest: "write_seq bs d1 = (True, d')"
    by (auto simp: write_seq.simps split: if_splits)
  from w ok have "short_write d1 = short_write d" by (simp add: write_ok_True_short)
  with Cons.IH[OF rest] show ?case by simp
qed

lemma seek_abs_short: "seek_abs d k = (ok, d') \<Longrightarrow> short_write d' = short_write d"
  by (auto simp: seek_abs_def short_write_def split: if_splits)

lemma bmp_rows_short:
  "bmp_rows d pixels palette width y row = Some (True, d') \<Longrightarrow> short_write d' = short_write d"
proof (induction d pixels palette width y row rule: bmp_rows.induct)
  case (1 d pixels palette width y row)
  show ?case
  proof (cases "y \<ge> 0")
    case False
    with "1.prems" show ?thesis by (simp add: bmp_rows.simps[of d])
  next
    case True
    from True "1.prems" obtain row' where
      f: "bmp_fill_row pixels palette width y 0 row = Some row'"
      by (auto simp: bmp_rows.simps[of d] split: option.splits)
    obtain ok d1 where w: "write_ok row' d = (ok, d1)" by (cases "write_ok row' d")
    with True f "1.prems" have ok: "ok"
      and rest: "bmp_rows d1 pixels palette width (y - 1) row' = Some (True, d')"
      by (auto simp: bmp_rows.simps[of d] split: if_splits)
    from w ok have "short_write d1 = short_write d" by (simp add: write_ok_True_short)
    with "1.IH"[OF True f w[symmetric] ok rest] show ?thesis by simp
  qed
qed

lemma tga_palette_short:
  "tga_palette d palette i = (True, d') \<Longrightarrow> short_write d' = short_write d"
proof (induction d palette i rule: tga_palette.induct)
  case (1 d palette i)
  show ?case
  proof (cases "i < 256")
    case False
    with "1.prems" show ?thesis by (simp add: tga_palette.simps[of d])
  next
    case True
    let ?b = "[col_b (palette ! i), col_g (palette ! i), col_r (palette ! i)]"
    obtain ok d1 where w: "write_ok ?b d = (ok, d1)" by (cases "write_ok ?b d")
    with True "1.prems" have ok: "ok" and rest: "tga_palette d1 palette (i + 1) = (True, d')"
      by (auto simp: tga_palette.simps[of d] split: if_splits)
    from w ok have "short_write d1 = short_write d" by (simp add: write_ok_True_short)
    with "1.IH"[OF True w[symmetric] ok rest] show ?thesis by simp
  qed
qed

lemma tga_rows_short:
  "tga_rows d pixels width height y = Some (True, d') \<Longrightarrow> short_write d' = short_write d"
proof (induction d pixels width height y rule: tga_rows.induct)
  case (1 d pixels width height y)
  show ?case
  proof (cases "y < height")
    case False
    with "1.prems" show ?thesis by (simp add: tga_rows.simps[of d])
  next
    case True
    from True "1.prems" obtain row where
      f: "load_range pixels (idx32 (y * width)) (nat width) = Some row"
      by (auto simp: tga_rows.simps[of d] split: option.splits)
    obtain ok d1 where w: "write_ok row d = (ok, d1)" by (cases "write_ok row d")
    with True f "1.prems" have ok: "ok"
      and rest: "tga_rows d1 pixels width height (y + 1) = Some (True, d')"
      by (auto simp: tga_rows.simps[of d] split: if_splits)
    from w ok have "short_write d1 = short_write d" by (simp add: write_ok_True_short)
    with "1.IH"[OF True f w[symmetric] ok rest] show ?thesis by simp
  qed
qed

lemma three_stage_success:
  assumes "(case W of
              (ok, d1) \<Rightarrow>
                if \<not> ok then Some (1 :: int, d1)
                else if c then Some (1, d1)
                else (case R d1 of
                        None \<Rightarrow> None
                      | Some (ok', d2) \<Rightarrow>
                          if \<not> ok' then Some (1, d2)
                          else (case S d2 of
                                  (ok'', d3) \<Rightarrow> if \<not> ok'' then Some (1, d3) else Some (0, d3))))
           = Some (r, d')"
    and "r \<noteq> 1"
  obtains d1 d2 where "W = (True, d1)" and "R d1 = Some (True, d2)" and "S d2 = (True, d')"
  using assms by (auto split: prod.splits if_splits option.splits)

lemma four_stage_success:
  assumes "(case W of
              (ok, d1) \<Rightarrow>
                if \<not> ok then Some (1 :: int, d1)
                else (case P d1 of
                        (ok', d2) \<Rightarrow>
                          if \<not> ok' then Some (1, d2)
                          else (case R d2 of
                                  None \<Rightarrow> None
                                | Some (ok'', d3) \<Rightarrow>
                                    if \<not> ok'' then Some (1, d3)
                                    else (case S d3 of
                                            (ok3, d4) \<Rightarrow>
                                              if \<not> ok3 then Some (1, d4) else Some (0, d4)))))
           = Some (r, d')"
    and "r \<noteq> 1"
  obtains d1 d2 d3 where "W = (True, d1)" and "P d1 = (True, d2)"
    and "R d2 = Some (True, d3)" and "S d3 = (True, d')"
  using assms by (auto split: prod.splits if_splits option.splits)

lemma SaveToBMP_short_write_fails:
  assumes "SaveToBMP dst pixels width height palette_src useTransparency = Some (r, dst')"
    and "\<not> short_write dst" and "short_write dst'"
  shows "r = 1"
proof (rule ccontr)
  assume r: "r \<noteq> 1"
  from assms(1) have "short_write dst' = short_write dst"
    unfolding SaveToBMP_def Let_def
    by (rule three_stage_success[OF _ r])
       (simp add: write_seq_short bmp_rows_short seek_abs_short)
  with assms(2,3) show False by simp
qed

lemma SaveToTGA_short_write_fails:
  assumes "SaveToTGA dst pixels width height palette_src useTransparency = Some (r, dst')"
    and "\<not> short_write dst" and "short_write dst'"
  shows "r = 1"
proof (rule ccontr)
  assume r: "r \<noteq> 1"
  from assms(1) have "short_write dst' = short_write dst"
    unfolding SaveToTGA_def Let_def
    by (rule four_stage_success[OF _ r])
       (simp add: write_seq_short tga_palette_short tga_rows_short seek_abs_short)
  with assms(2,3) show False by simp
qed


lemma length_be32: "length (be32 v) = 4"
  by (simp add: be32_def)

lemma length_write_PNG_Chunk:
  "4 \<le> length type \<Longrightarrow>
   length (write_PNG_Chunk buffer type data n) =
     length buffer + 12 + (case data of None \<Rightarrow> 0 | Some bytes \<Rightarrow> min (unat n) (length bytes))"
  by (cases data)
     (auto simp: write_PNG_Chunk_Some write_PNG_Chunk_None length_be32 bytes_of_def
       word_greater_zero_iff)

lemma length_plte_fill: "length (plte_fill palette i plte) = length plte"
proof (induction palette i plte rule: plte_fill.induct)
  case (1 palette i plte)
  show ?case
  proof (cases "i < 256")
    case True
    with "1.IH"[OF True] show ?thesis by (simp add: plte_fill.simps[of palette i])
  next
    case False
    then show ?thesis by (simp add: plte_fill.simps[of palette i])
  qed
qed

lemma png_1x1_assembled:
  "\<exists>png. png_assemble stub_zlib PNG_8 [5] 1 1 defaultPalette False = Some (Some png)
     \<and> length png = 839"
  by (simp add: png_assemble_def Let_def stub_zlib_def png8_rows.simps iter_range_def s32_def
      grow_def vec_max_def idx32_def compressed_def
      length_write_PNG_Chunk length_plte_fill length_be32 signature_def)

lemma SaveToPNG_after_assembly:
  "png_assemble z mode pixels width height palette useTransparency = Some (Some png) \<Longrightarrow>
   SaveToPNG z mode dst pixels width height palette useTransparency =
     Some (0, snd (dwrite dst png))"
  by (simp add: SaveToPNG_def split: prod.splits)

text \<open>
  C6. The claim: in each of the three encoders a write that reports fewer bytes than
  requested makes the encoder, and the conversion, fail. \<open>SaveToBMP\<close> and
  \<open>SaveToTGA\<close> do so (\<open>SaveToBMP_short_write_fails\<close>, \<open>SaveToTGA_short_write_fails\<close>).
  \<open>SaveToPNG\<close> does not look at the result of its one write: with a destination
  that accepts none of the 839 bytes of the PNG of a 1\<times>1 image, the conversion
  returns 0 and nothing has been written.
\<close>

theorem C6_png_ignores_short_write:
  "return_value (ConvertPID stub_zlib PNG_8 (pid_file (pid_header 0 1 1 @ [0x05])) full_dst ''PNG'')
     = Some 0
   \<and> written (ConvertPID stub_zlib PNG_8 (pid_file (pid_header 0 1 1 @ [0x05])) full_dst ''PNG'') = []
   \<and> write_log (ConvertPID stub_zlib PNG_8 (pid_file (pid_header 0 1 1 @ [0x05])) full_dst ''PNG'')
     = [(839, 0)]"
proof -
  obtain png where png: "png_assemble stub_zlib PNG_8 [5] 1 1 defaultPalette False = Some (Some png)"
    and len: "length png = 839"
    using png_1x1_assembled by blast
  have save: "SaveToPNG stub_zlib PNG_8 full_dst [5] 1 1 defaultPalette False =
      Some (0, full_dst\<lparr>dlog := [(839, 0)]\<rparr>)"
    by (simp add: SaveToPNG_def png dwrite_def len full_dst_def)
  have conv: "ConvertPID stub_zlib PNG_8 (pid_file (pid_header 0 1 1 @ [0x05])) full_dst ''PNG'' =
      Some (0, full_dst\<lparr>dlog := [(839, 0)]\<rparr>)"
    by (simp add: ConvertPID_def sread_def parse_header_def word_of_le_def pixel_count_def
        resolve_palette_def sseek_def decompress_def read_byte_eq store_def orient_def
        le32_def Let_def list_update_numeral pid_file_def
        pid_header_bytes replicate_numeral raw_loop.simps fill_run.simps save)
  show ?thesis
    unfolding conv by (simp add: return_value_def written_def write_log_def full_dst_def)
qed




section \<open>Orientation\<close>

lemma idx32_id: "0 \<le> i \<Longrightarrow> i < 2 ^ 32 \<Longrightarrow> idx32 i = nat i"
  by (simp add: idx32_def)

lemma cell_bound:
  fixes y x w h :: int
  assumes "0 \<le> y" "y < h" "0 \<le> x" "x < w"
  shows "0 \<le> y * w + x" and "y * w + x < w * h" and "y * w + w \<le> w * h"
proof -
  have w: "0 < w" using assms(3,4) by simp
  show "0 \<le> y * w + x" using assms(1,3) w by simp
  have "(y + 1) * w \<le> h * w"
    by (rule mult_right_mono) (use assms(2) w in simp_all)
  then show le: "y * w + w \<le> w * h" by (simp add: algebra_simps)
  with assms(4) show "y * w + x < w * h" by simp
qed

lemma flip_row_inv:
  assumes "0 \<le> y" "y < height" "0 \<le> srcY" "srcY < height" "0 \<le> x" "x \<le> width"
    and "width * height < 2 ^ 32"
    and "length pixels = nat (width * height)" "length flipped = nat (width * height)"
  shows "\<exists>f'. flip_row pixels width height mirror srcY y x flipped = Some f'
      \<and> length f' = length flipped
      \<and> (\<forall>x'. x \<le> x' \<and> x' < width \<longrightarrow>
            f' ! nat (y * width + x') =
              pixels ! nat (srcY * width + (if mirror then width - 1 - x' else x')))
      \<and> (\<forall>j. j < nat (y * width + x) \<longrightarrow> f' ! j = flipped ! j)
      \<and> (\<forall>j. nat (y * width + width) \<le> j \<and> j < length flipped \<longrightarrow> f' ! j = flipped ! j)"
  using assms
proof (induction pixels width height mirror srcY y x flipped rule: flip_row.induct)
  case (1 pixels width height mirror srcY y x flipped)
  show ?case
  proof (cases "x < width")
    case False
    then have "flip_row pixels width height mirror srcY y x flipped = Some flipped"
      by (simp add: flip_row.simps[of pixels width height mirror srcY y x])
    then show ?thesis using False by auto
  next
    case True
    let ?sx = "if mirror then width - 1 - x else x"
    have sx: "0 \<le> ?sx" "?sx < width" using True "1.prems"(5) by auto
    let ?si = "srcY * width + ?sx"
    let ?di = "y * width + x"
    have si: "0 \<le> ?si" "?si < width * height"
      using cell_bound(1,2)[OF "1.prems"(3,4) sx] by simp_all
    have di: "0 \<le> ?di" "?di < width * height"
      using cell_bound(1,2)[OF "1.prems"(1,2) "1.prems"(5) True] by simp_all
    have isi: "idx32 ?si = nat ?si" using si "1.prems"(7) by (intro idx32_id) simp_all
    have idi: "idx32 ?di = nat ?di" using di "1.prems"(7) by (intro idx32_id) simp_all
    let ?v = "pixels ! nat ?si"
    let ?f1 = "flipped[nat ?di := ?v]"
    have ld: "load pixels (idx32 ?si) = Some ?v"
      using si "1.prems"(8) by (simp add: load_def isi)
    have st: "store flipped (idx32 ?di) ?v = Some ?f1"
      using di "1.prems"(9) by (simp add: store_def idi)
    have step: "flip_row pixels width height mirror srcY y x flipped =
        flip_row pixels width height mirror srcY y (x + 1) ?f1"
      using True ld st
      by (simp add: flip_row.simps[of pixels width height mirror srcY y x] Let_def)
    have "\<exists>f'. flip_row pixels width height mirror srcY y (x + 1) ?f1 = Some f'
      \<and> length f' = length ?f1
      \<and> (\<forall>x'. x + 1 \<le> x' \<and> x' < width \<longrightarrow>
            f' ! nat (y * width + x') =
              pixels ! nat (srcY * width + (if mirror then width - 1 - x' else x')))
      \<and> (\<forall>j. j < nat (y * width + (x + 1)) \<longrightarrow> f' ! j = ?f1 ! j)
      \<and> (\<forall>j. nat (y * width + width) \<le> j \<and> j < length ?f1 \<longrightarrow> f' ! j = ?f1 ! j)"
      using True "1.prems" ld[unfolded isi] st[unfolded idi]
      by (intro "1.IH"[OF True refl, of ?v ?f1]) (simp_all add: isi idi)
    then obtain f' where
      run: "flip_row pixels width height mirror srcY y (x + 1) ?f1 = Some f'"
      and len: "length f' = length ?f1"
      and later: "\<forall>x'. x + 1 \<le> x' \<and> x' < width \<longrightarrow>
            f' ! nat (y * width + x') =
              pixels ! nat (srcY * width + (if mirror then width - 1 - x' else x'))"
      and before: "\<forall>j. j < nat (y * width + (x + 1)) \<longrightarrow> f' ! j = ?f1 ! j"
      and after: "\<forall>j. nat (y * width + width) \<le> j \<and> j < length ?f1 \<longrightarrow> f' ! j = ?f1 ! j"
      by blast
    have dlt: "nat ?di < length flipped" using di "1.prems"(9) by simp
    have here: "f' ! nat ?di = ?v"
    proof -
      have "nat ?di < nat (y * width + (x + 1))" using di by simp
      with before have "f' ! nat ?di = ?f1 ! nat ?di" by blast
      with dlt show ?thesis by simp
    qed
    have cells: "\<forall>x'. x \<le> x' \<and> x' < width \<longrightarrow>
            f' ! nat (y * width + x') =
              pixels ! nat (srcY * width + (if mirror then width - 1 - x' else x'))"
    proof (intro allI impI)
      fix x' assume x': "x \<le> x' \<and> x' < width"
      show "f' ! nat (y * width + x') =
              pixels ! nat (srcY * width + (if mirror then width - 1 - x' else x'))"
      proof (cases "x' = x")
        case True
        then show ?thesis using here by simp
      next
        case False
        with x' have "x + 1 \<le> x' \<and> x' < width" by simp
        with later show ?thesis by blast
      qed
    qed
    have bef: "\<forall>j. j < nat ?di \<longrightarrow> f' ! j = flipped ! j"
    proof (intro allI impI)
      fix j assume j: "j < nat ?di"
      then have "j < nat (y * width + (x + 1))" by simp
      with before have "f' ! j = ?f1 ! j" by blast
      with j show "f' ! j = flipped ! j" by simp
    qed
    have aft: "\<forall>j. nat (y * width + width) \<le> j \<and> j < length flipped \<longrightarrow> f' ! j = flipped ! j"
    proof (intro allI impI)
      fix j assume j: "nat (y * width + width) \<le> j \<and> j < length flipped"
      with after have "f' ! j = ?f1 ! j" by simp
      moreover have "nat ?di < j" using j True di by linarith
      ultimately show "f' ! j = flipped ! j" by simp
    qed
    show ?thesis
      unfolding step using run len cells bef aft by simp
  qed
qed

lemma flip_rows_inv:
  assumes "0 \<le> y" "y \<le> height" "0 < width"
    and "width * height < 2 ^ 32"
    and "length pixels = nat (width * height)" "length flipped = nat (width * height)"
  shows "\<exists>f'. flip_rows pixels width height mirror invert y flipped = Some f'
      \<and> length f' = length flipped
      \<and> (\<forall>y' x'. y \<le> y' \<and> y' < height \<and> 0 \<le> x' \<and> x' < width \<longrightarrow>
            f' ! nat (y' * width + x') =
              pixels ! nat ((if invert then height - 1 - y' else y') * width
                            + (if mirror then width - 1 - x' else x')))
      \<and> (\<forall>j. j < nat (y * width) \<longrightarrow> f' ! j = flipped ! j)"
  using assms
proof (induction pixels width height mirror invert y flipped rule: flip_rows.induct)
  case (1 pixels width height mirror invert y flipped)
  show ?case
  proof (cases "y < height")
    case False
    then have "flip_rows pixels width height mirror invert y flipped = Some flipped"
      by (simp add: flip_rows.simps[of pixels width height mirror invert y])
    then show ?thesis using False by auto
  next
    case True
    let ?sy = "if invert then height - 1 - y else y"
    have sy: "0 \<le> ?sy" "?sy < height" using True "1.prems"(1) by auto
    have w0: "(0 :: int) \<le> 0" "(0 :: int) \<le> width" using "1.prems"(3) by simp_all
    from flip_row_inv[OF "1.prems"(1) True sy w0 "1.prems"(4,5,6), of mirror]
    obtain f1 where
      row: "flip_row pixels width height mirror ?sy y 0 flipped = Some f1"
      and len1: "length f1 = length flipped"
      and cells1: "\<forall>x'. 0 \<le> x' \<and> x' < width \<longrightarrow>
            f1 ! nat (y * width + x') =
              pixels ! nat (?sy * width + (if mirror then width - 1 - x' else x'))"
      and before1: "\<forall>j. j < nat (y * width + 0) \<longrightarrow> f1 ! j = flipped ! j"
      by blast
    have step: "flip_rows pixels width height mirror invert y flipped =
        flip_rows pixels width height mirror invert (y + 1) f1"
      using True row by (simp add: flip_rows.simps[of pixels width height mirror invert y] Let_def)
    have "\<exists>f'. flip_rows pixels width height mirror invert (y + 1) f1 = Some f'
      \<and> length f' = length f1
      \<and> (\<forall>y' x'. y + 1 \<le> y' \<and> y' < height \<and> 0 \<le> x' \<and> x' < width \<longrightarrow>
            f' ! nat (y' * width + x') =
              pixels ! nat ((if invert then height - 1 - y' else y') * width
                            + (if mirror then width - 1 - x' else x')))
      \<and> (\<forall>j. j < nat ((y + 1) * width) \<longrightarrow> f' ! j = f1 ! j)"
      using True "1.prems" len1 row
      by (intro "1.IH"[OF True refl, of f1]) simp_all
    then obtain f' where
      run: "flip_rows pixels width height mirror invert (y + 1) f1 = Some f'"
      and len: "length f' = length f1"
      and later: "\<forall>y' x'. y + 1 \<le> y' \<and> y' < height \<and> 0 \<le> x' \<and> x' < width \<longrightarrow>
            f' ! nat (y' * width + x') =
              pixels ! nat ((if invert then height - 1 - y' else y') * width
                            + (if mirror then width - 1 - x' else x'))"
      and before: "\<forall>j. j < nat ((y + 1) * width) \<longrightarrow> f' ! j = f1 ! j"
      by blast
    have yw: "0 \<le> y * width" using "1.prems"(1,3) by simp
    have cells: "\<forall>y' x'. y \<le> y' \<and> y' < height \<and> 0 \<le> x' \<and> x' < width \<longrightarrow>
            f' ! nat (y' * width + x') =
              pixels ! nat ((if invert then height - 1 - y' else y') * width
                            + (if mirror then width - 1 - x' else x'))"
    proof (intro allI impI)
      fix y' x' assume c: "y \<le> y' \<and> y' < height \<and> 0 \<le> x' \<and> x' < width"
      show "f' ! nat (y' * width + x') =
              pixels ! nat ((if invert then height - 1 - y' else y') * width
                            + (if mirror then width - 1 - x' else x'))"
      proof (cases "y' = y")
        case False
        with c have "y + 1 \<le> y' \<and> y' < height \<and> 0 \<le> x' \<and> x' < width" by simp
        with later show ?thesis by blast
      next
        case True
        have "y * width + x' < (y + 1) * width" using c by (simp add: algebra_simps)
        then have "nat (y * width + x') < nat ((y + 1) * width)" using c yw by linarith
        with before have "f' ! nat (y * width + x') = f1 ! nat (y * width + x')" by blast
        also have "\<dots> = pixels ! nat (?sy * width + (if mirror then width - 1 - x' else x'))"
          using cells1 c by blast
        finally show ?thesis using True by simp
      qed
    qed
    have bef: "\<forall>j. j < nat (y * width) \<longrightarrow> f' ! j = flipped ! j"
    proof (intro allI impI)
      fix j assume j: "j < nat (y * width)"
      have "y * width \<le> (y + 1) * width" using "1.prems"(3) by (simp add: algebra_simps)
      with j have "j < nat ((y + 1) * width)" by linarith
      with before have "f' ! j = f1 ! j" by blast
      also have "\<dots> = flipped ! j" using before1 j by simp
      finally show "f' ! j = flipped ! j" .
    qed
    show ?thesis
      unfolding step using run len len1 cells bef by simp
  qed
qed

text \<open>
  C9. For a raster of \<open>width * height\<close> pixels and \<open>mirror\<close> or \<open>invert\<close> set, the
  step returns a raster of the same size whose pixel in row \<open>y\<close>, column \<open>x\<close> is
  the pixel of the input in row \<open>height - 1 - y\<close> (with \<open>invert\<close>, else \<open>y\<close>) and
  column \<open>width - 1 - x\<close> (with \<open>mirror\<close>, else \<open>x\<close>). The input is only read:
  every value comes from \<open>pixels\<close>, every store goes to the new vector. Both flags
  on the raster 1, 2 / 3, 4 give 4, 3 / 2, 1.
\<close>

theorem C9_orientation:
  assumes "0 < width" and "0 < height" and "width * height < 2 ^ 32"
    and "length pixels = nat (width * height)" and "mirror \<or> invert"
  shows "(\<exists>flipped. orient pixels width height mirror invert = Some flipped
      \<and> length flipped = length pixels
      \<and> (\<forall>y x. 0 \<le> y \<and> y < height \<and> 0 \<le> x \<and> x < width \<longrightarrow>
            flipped ! nat (y * width + x) =
              pixels ! nat ((if invert then height - 1 - y else y) * width
                            + (if mirror then width - 1 - x else x))))
   \<and> orient [1, 2, 3, 4] 2 2 True True = Some [4, 3, 2, 1]"
proof
  have z: "(0 :: int) \<le> 0" "(0 :: int) \<le> height" using assms(2) by simp_all
  have lf: "length (replicate (length pixels) (0 :: byte)) = nat (width * height)"
    using assms(4) by simp
  from flip_rows_inv[OF z assms(1,3,4) lf, of mirror invert]
  show "\<exists>flipped. orient pixels width height mirror invert = Some flipped
      \<and> length flipped = length pixels
      \<and> (\<forall>y x. 0 \<le> y \<and> y < height \<and> 0 \<le> x \<and> x < width \<longrightarrow>
            flipped ! nat (y * width + x) =
              pixels ! nat ((if invert then height - 1 - y else y) * width
                            + (if mirror then width - 1 - x else x)))"
    using assms(5) by (auto simp: orient_def)
  show "orient [1, 2, 3, 4] 2 2 True True = Some [4, 3, 2, 1]"
    by (simp add: orient_def flip_rows.simps flip_row.simps load_def store_def idx32_def
        replicate_numeral list_update_numeral)
qed

text \<open>The theorem at the same raster with \<open>mirror\<close> alone and with \<open>invert\<close> alone.\<close>

theorem C9_orientation_witness:
  "(0 :: int) < 2 \<and> (2 :: int) * 2 < 2 ^ 32 \<and> length [1, 2, 3, 4 :: byte] = nat (2 * 2)
   \<and> orient [1, 2, 3, 4] 2 2 True False = Some [2, 1, 4, 3]
   \<and> orient [1, 2, 3, 4] 2 2 False True = Some [3, 4, 1, 2]"
proof -
  have h1: "(0 :: int) < 2" by simp
  have h2: "(2 :: int) * 2 < 2 ^ 32" by simp
  have h3: "length [1, 2, 3, 4 :: byte] = nat (2 * 2)" by simp
  from C9_orientation[OF h1 h1 h2 h3, of True False]
  obtain f where f: "orient [1, 2, 3, 4] 2 2 True False = Some f" and lf: "length f = 4"
    and cells: "\<forall>y x. 0 \<le> y \<and> y < 2 \<and> 0 \<le> x \<and> x < 2 \<longrightarrow>
       f ! nat (y * 2 + x) = [1, 2, 3, 4 :: byte] ! nat (y * 2 + (2 - 1 - x))"
    by auto
  have "f ! 0 = 2" using cells[rule_format, of 0 0] by simp
  moreover have "f ! 1 = 1" using cells[rule_format, of 0 1] by simp
  moreover have "f ! 2 = 4" using cells[rule_format, of 1 0] by simp
  moreover have "f ! 3 = 3" using cells[rule_format, of 1 1] by simp
  ultimately have "f = [2, 1, 4, 3]" using lf
    by (auto simp: list_eq_iff_nth_eq less_Suc_eq numeral_eq_Suc)
  with f have a: "orient [1, 2, 3, 4] 2 2 True False = Some [2, 1, 4, 3]" by simp
  from C9_orientation[OF h1 h1 h2 h3, of False True]
  obtain g where g: "orient [1, 2, 3, 4] 2 2 False True = Some g" and lg: "length g = 4"
    and cellsg: "\<forall>y x. 0 \<le> y \<and> y < 2 \<and> 0 \<le> x \<and> x < 2 \<longrightarrow>
       g ! nat (y * 2 + x) = [1, 2, 3, 4 :: byte] ! nat ((2 - 1 - y) * 2 + x)"
    by auto
  have "g ! 0 = 3" using cellsg[rule_format, of 0 0] by simp
  moreover have "g ! 1 = 4" using cellsg[rule_format, of 0 1] by simp
  moreover have "g ! 2 = 1" using cellsg[rule_format, of 1 0] by simp
  moreover have "g ! 3 = 2" using cellsg[rule_format, of 1 1] by simp
  ultimately have "g = [3, 4, 1, 2]" using lg
    by (auto simp: list_eq_iff_nth_eq less_Suc_eq numeral_eq_Suc)
  with g have b: "orient [1, 2, 3, 4] 2 2 False True = Some [3, 4, 1, 2]" by simp
  from h1 h2 h3 a b show ?thesis by simp
qed


section \<open>The chunk sequence of a PNG\<close>



lemma png_assemble_cases:
  assumes "png_assemble z mode pixels width height palette useTransparency = Some (Some png)"
  obtains idat packed where
    "(if mode = PNG_8 then png8_rows pixels (sint width) (sint height) 0 []
      else if mode = PNG_24
      then png_rgb_rows False useTransparency pixels palette (sint width) (sint height) 0 []
      else png_rgb_rows True useTransparency pixels palette (sint width) (sint height) 0 [])
     = Some (Some idat)"
    and "deflateInit_ok z"
    and "compressed z idat = Some packed"
    and "png = write_PNG_Chunk
            (write_PNG_Chunk
               (if mode = PNG_8 then
                  (if useTransparency
                   then write_PNG_Chunk
                          (write_PNG_Chunk
                             (write_PNG_Chunk signature ''IHDR''
                                (Some (be32 width @ be32 height @ [8, 3, 0, 0, 0])) 13)
                             ''PLTE'' (Some (plte_fill palette 0 (replicate 768 0))) 768)
                          ''tRNS'' (Some ((replicate 256 255)[0 := 0])) 256
                   else write_PNG_Chunk
                          (write_PNG_Chunk signature ''IHDR''
                             (Some (be32 width @ be32 height @ [8, 3, 0, 0, 0])) 13)
                          ''PLTE'' (Some (plte_fill palette 0 (replicate 768 0))) 768)
                else write_PNG_Chunk signature ''IHDR''
                       (Some (be32 width @ be32 height
                              @ [8, if mode = PNG_24 then 2 else 6, 0, 0, 0])) 13)
               ''IDAT'' (Some packed) (of_nat (length packed)))
            ''IEND'' None 0"
  using assms
  apply (simp only: png_assemble_def Let_def)
  apply (simp split: if_splits option.splits)
  done









section \<open>An exact raster, or failure\<close>

subsection \<open>The raster keeps its size\<close>

lemma store_length: "store v i x = Some v' \<Longrightarrow> length v' = length v"
  by (auto simp: store_def split: if_splits)

lemma fill_run_length:
  "fill_run i count fill pos pixels = Some (pos', pixels') \<Longrightarrow> length pixels' = length pixels"
proof (induction i count fill pos pixels rule: fill_run.induct)
  case (1 i count fill pos pixels)
  then show ?case
    by (auto simp: fill_run.simps[of i count fill pos pixels] dest: store_length
             split: if_splits option.splits)
qed

lemma lit_run_length:
  "lit_run i A s pos pixels = Some (s', pos', pixels') \<Longrightarrow> length pixels' = length pixels"
proof (induction i A s pos pixels rule: lit_run.induct)
  case (1 i A s pos pixels)
  then show ?case
    by (auto simp: lit_run.simps[of i A s pos pixels] dest: store_length
             split: if_splits option.splits)
qed

lemma rle_loop_length:
  "rle_loop s pos pixels = Some (pos', pixels', s') \<Longrightarrow> length pixels' = length pixels"
proof (induction s pos pixels rule: rle_loop.induct)
  case (1 s pos pixels)
  then show ?case
    by (auto simp: rle_loop.simps[of s pos pixels]
             split: if_splits option.splits)
       (frule fill_run_length lit_run_length, simp)+
qed

lemma raw_loop_length:
  "raw_loop s pos pixels = Some (pos', pixels', s') \<Longrightarrow> length pixels' = length pixels"
proof (induction s pos pixels rule: raw_loop.induct)
  case (1 s pos pixels)
  then show ?case
    by (auto simp: raw_loop.simps[of s pos pixels] Let_def
             split: if_splits option.splits)
       (frule fill_run_length, simp)+
qed

lemma decompress_length:
  "decompress rle s n = Some (pos, pixels, s') \<Longrightarrow> length pixels = n"
  by (auto simp: decompress_def dest: rle_loop_length raw_loop_length split: if_splits)

lemma flip_row_length:
  "flip_row pixels width height mirror srcY y x flipped = Some flipped' \<Longrightarrow>
     length flipped' = length flipped"
proof (induction pixels width height mirror srcY y x flipped rule: flip_row.induct)
  case (1 pixels width height mirror srcY y x flipped)
  then show ?case
    by (auto simp: flip_row.simps[of pixels width height mirror srcY y x flipped] Let_def
             dest: store_length split: if_splits option.splits)
qed

lemma flip_rows_length:
  "flip_rows pixels width height mirror invert y flipped = Some flipped' \<Longrightarrow>
     length flipped' = length flipped"
proof (induction pixels width height mirror invert y flipped rule: flip_rows.induct)
  case (1 pixels width height mirror invert y flipped)
  then show ?case
    by (auto simp: flip_rows.simps[of pixels width height mirror invert y flipped] Let_def
             dest: flip_row_length split: if_splits option.splits)
qed

lemma orient_length:
  "orient pixels width height mirror invert = Some pixels' \<Longrightarrow> length pixels' = length pixels"
  by (auto simp: orient_def dest: flip_rows_length split: if_splits)

subsection \<open>What a successful encoder has read\<close>

text \<open>
  Each encoder reads every cell of a \<open>width \<times> height\<close> raster through an index
  computed in 32 bits. When the raster has at most \<open>2^30\<close> entries and the encoder
  has read no cell outside it, the raster has at least \<open>width * height\<close> entries,
  the product taken in the integers.
\<close>

lemma cell_exists:
  fixes W H :: int
  assumes "0 < W" and "int n < W * H"
  shows "\<exists>y x. 0 \<le> y \<and> y < H \<and> 0 \<le> x \<and> x < W \<and> y * W + x = int n"
proof -
  let ?y = "int n div W" and ?x = "int n mod W"
  have eq: "?y * W + ?x = int n" by simp
  have x: "0 \<le> ?x" "?x < W" using assms(1) by simp_all
  have y0: "0 \<le> ?y" using assms(1) by (simp add: pos_imp_zdiv_nonneg_iff)
  have "?y < H"
  proof (rule ccontr)
    assume "\<not> ?y < H"
    then have "H * W \<le> ?y * W" using assms(1) by (intro mult_right_mono) simp_all
    with eq x have "H * W \<le> int n" by linarith
    with assms(2) show False by (simp add: mult.commute)
  qed
  with eq x y0 show ?thesis by blast
qed

lemma idx32_small: "0 \<le> i \<Longrightarrow> i < 2 ^ 32 \<Longrightarrow> idx32 i = nat i"
  by (simp add: idx32_def)

lemma cells_cover:
  fixes W H :: int
  assumes "0 < W" and "n \<le> 2 ^ 30"
    and cells: "\<And>y x. 0 \<le> y \<Longrightarrow> y < H \<Longrightarrow> 0 \<le> x \<Longrightarrow> x < W \<Longrightarrow> idx32 (y * W + x) < n"
  shows "W * H \<le> int n"
proof (rule ccontr)
  assume "\<not> W * H \<le> int n"
  then have "int n < W * H" by simp
  from cell_exists[OF assms(1) this] obtain y x
    where c: "0 \<le> y" "y < H" "0 \<le> x" "x < W" "y * W + x = int n" by blast
  have "int n < 2 ^ 32" using assms(2) by simp
  then have "idx32 (int n) = n" by (simp add: idx32_def)
  with cells[OF c(1-4)] c(5) show False by simp
qed

lemma rows_cover:
  fixes W H :: int
  assumes "0 < W" and "n \<le> 2 ^ 30"
    and rows: "\<And>y. 0 \<le> y \<Longrightarrow> y < H \<Longrightarrow> idx32 (y * W) + nat W \<le> n"
  shows "W * H \<le> int n"
proof (rule ccontr)
  assume "\<not> W * H \<le> int n"
  then have "int n < W * H" by simp
  from cell_exists[OF assms(1) this] obtain y x
    where c: "0 \<le> y" "y < H" "0 \<le> x" "x < W" "y * W + x = int n" by blast
  have yw: "0 \<le> y * W" using c(1) assms(1) by simp
  have "y * W \<le> int n" using c by linarith
  then have "y * W < 2 ^ 32" using assms(2) by simp
  with yw have "idx32 (y * W) = nat (y * W)" by (rule idx32_small)
  with rows[OF c(1,2)] have "nat (y * W) + nat W \<le> n" by simp
  with yw assms(1) have "y * W + W \<le> int n" by linarith
  with c show False by linarith
qed

lemma ranges_cover:
  fixes W H :: int
  assumes "0 < W" and "W < 2 ^ 31" and "n \<le> 2 ^ 30"
    and rows: "\<And>y. 0 \<le> y \<Longrightarrow> y < H \<Longrightarrow>
                 0 \<le> s32 (y * W) \<and> s32 (y * W) \<le> s32 ((y + 1) * W)
                 \<and> s32 ((y + 1) * W) \<le> int n"
  shows "W * H \<le> int n"
proof (rule ccontr)
  assume "\<not> W * H \<le> int n"
  then have "int n < W * H" by simp
  from cell_exists[OF assms(1) this] obtain y x
    where c: "0 \<le> y" "y < H" "0 \<le> x" "x < W" "y * W + x = int n" by blast
  have yw: "0 \<le> y * W" using c(1) assms(1) by simp
  have le: "y * W \<le> int n" using c by linarith
  have n: "int n \<le> 2 ^ 30" using assms(3) by simp
  have nxt: "(y + 1) * W = y * W + W" by (simp add: algebra_simps)
  have gt: "int n < y * W + W" using c by linarith
  have first: "s32 (y * W) = y * W"
    using yw le n by (simp add: s32_def)
  show False
  proof (cases "y * W + W < 2 ^ 31")
    case True
    then have "s32 ((y + 1) * W) = y * W + W"
      using yw assms(1) unfolding nxt by (simp add: s32_def)
    with rows[OF c(1,2)] gt show False by simp
  next
    case False
    have "y * W + W < 2 ^ 30 + 2 ^ 31" using le n assms(2) by linarith
    then have "(y * W + W + 2 ^ 31) mod 2 ^ 32 = y * W + W + 2 ^ 31 - 2 ^ 32"
      using False by (simp add: mod_pos_geq)
    then have "s32 ((y + 1) * W) = y * W + W - 2 ^ 32"
      unfolding nxt by (simp add: s32_def)
    with rows[OF c(1,2)] first yw le n assms(2) show False by simp
  qed
qed

lemma bmp_fill_row_loads:
  "bmp_fill_row pixels palette width y x row = Some row' \<Longrightarrow> x \<le> x' \<Longrightarrow> x' < width \<Longrightarrow>
     idx32 (y * width + x') < length pixels"
proof (induction pixels palette width y x row rule: bmp_fill_row.induct)
  case (1 pixels palette width y x row)
  from "1.prems" have lt: "x < width" by simp
  from "1.prems"(1) lt obtain idx row1 row2 row3 where
    l: "load pixels (idx32 (y * width + x)) = Some idx"
    and s1: "store row (idx32 (x * 3 + 0)) (col_b (palette ! unat idx)) = Some row1"
    and s2: "store row1 (idx32 (x * 3 + 1)) (col_g (palette ! unat idx)) = Some row2"
    and s3: "store row2 (idx32 (x * 3 + 2)) (col_r (palette ! unat idx)) = Some row3"
    and r: "bmp_fill_row pixels palette width y (x + 1) row3 = Some row'"
    by (auto simp: bmp_fill_row.simps[of pixels palette width y x row] split: option.splits)
  show ?case
  proof (cases "x' = x")
    case True
    with l show ?thesis by (simp add: load_def split: if_splits)
  next
    case False
    with "1.prems" have "x + 1 \<le> x'" by simp
    from "1.IH"[OF lt l s1 s2 s3 r this "1.prems"(3)] show ?thesis .
  qed
qed

lemma bmp_rows_loads:
  "bmp_rows d pixels palette width y row = Some (True, d') \<Longrightarrow> 0 \<le> y' \<Longrightarrow> y' \<le> y \<Longrightarrow>
     0 \<le> x' \<Longrightarrow> x' < width \<Longrightarrow> idx32 (y' * width + x') < length pixels"
proof (induction d pixels palette width y row rule: bmp_rows.induct)
  case (1 d pixels palette width y row)
  from "1.prems" have ge: "0 \<le> y" by simp
  from "1.prems"(1) ge obtain rowa da where
    f: "bmp_fill_row pixels palette width y 0 row = Some rowa"
    and w: "write_ok rowa d = (True, da)"
    and r: "bmp_rows da pixels palette width (y - 1) rowa = Some (True, d')"
    by (auto simp: bmp_rows.simps[of d pixels palette width y row]
             split: option.splits prod.splits if_splits)
  show ?case
  proof (cases "y' = y")
    case True
    with bmp_fill_row_loads[OF f "1.prems"(4,5)] show ?thesis by simp
  next
    case False
    with "1.prems" have "y' \<le> y - 1" by simp
    from "1.IH"[OF ge f w[symmetric] _ r "1.prems"(2) this "1.prems"(4,5)] show ?thesis by simp
  qed
qed

lemma tga_rows_loads:
  "tga_rows d pixels width height y = Some (True, d') \<Longrightarrow> y \<le> y' \<Longrightarrow> y' < height \<Longrightarrow>
     idx32 (y' * width) + nat width \<le> length pixels"
proof (induction d pixels width height y rule: tga_rows.induct)
  case (1 d pixels width height y)
  from "1.prems" have lt: "y < height" by simp
  from "1.prems"(1) lt obtain row da where
    l: "load_range pixels (idx32 (y * width)) (nat width) = Some row"
    and w: "write_ok row d = (True, da)"
    and r: "tga_rows da pixels width height (y + 1) = Some (True, d')"
    by (auto simp: tga_rows.simps[of d pixels width height y]
             split: option.splits prod.splits if_splits)
  show ?case
  proof (cases "y' = y")
    case True
    with l show ?thesis by (simp add: load_range_def split: if_splits)
  next
    case False
    with "1.prems" have "y + 1 \<le> y'" by simp
    from "1.IH"[OF lt l w[symmetric] _ r this "1.prems"(3)] show ?thesis by simp
  qed
qed

lemma png8_rows_ranges:
  "png8_rows pixels width height y idat = Some (Some idat') \<Longrightarrow> y \<le> y' \<Longrightarrow> y' < height \<Longrightarrow>
     0 \<le> s32 (y' * width) \<and> s32 (y' * width) \<le> s32 ((y' + 1) * width)
     \<and> s32 ((y' + 1) * width) \<le> int (length pixels)"
proof (induction pixels width height y idat rule: png8_rows.induct)
  case (1 pixels width height y idat)
  from "1.prems" have lt: "y < height" by simp
  from "1.prems"(1) lt obtain idat1 row idat2 where
    g1: "grow idat [0] = Some idat1"
    and i: "iter_range pixels (s32 (y * width)) (s32 ((y + 1) * width)) = Some row"
    and g2: "grow idat1 row = Some idat2"
    and r: "png8_rows pixels width height (y + 1) idat2 = Some (Some idat')"
    by (auto simp: png8_rows.simps[of pixels width height y idat] split: option.splits)
  show ?case
  proof (cases "y' = y")
    case True
    with i show ?thesis by (simp add: iter_range_def split: if_splits)
  next
    case False
    with "1.prems" have "y + 1 \<le> y'" by simp
    from "1.IH"[OF lt g1 i g2 r this "1.prems"(3)] show ?thesis .
  qed
qed

lemma png_rgb_row_loads:
  "png_rgb_row alpha useTransparency pixels palette width y x idat = Some (Some idat') \<Longrightarrow>
     x \<le> x' \<Longrightarrow> x' < width \<Longrightarrow> idx32 (y * width + x') < length pixels"
proof (induction alpha useTransparency pixels palette width y x idat rule: png_rgb_row.induct)
  case (1 alpha useTransparency pixels palette width y x idat)
  from "1.prems" have lt: "x < width" by simp
  from "1.prems"(1) lt obtain idx idata where
    l: "load pixels (idx32 (y * width + x)) = Some idx"
    and g: "grow idat
              ([col_r (palette ! unat idx), col_g (palette ! unat idx), col_b (palette ! unat idx)]
               @ (if alpha then [if useTransparency \<and> idx = 0 then 0 else 255] else []))
            = Some idata"
    and r: "png_rgb_row alpha useTransparency pixels palette width y (x + 1) idata = Some (Some idat')"
    by (auto simp: png_rgb_row.simps[of alpha useTransparency pixels palette width y x idat]
             split: option.splits)
  show ?case
  proof (cases "x' = x")
    case True
    with l show ?thesis by (simp add: load_def split: if_splits)
  next
    case False
    with "1.prems" have "x + 1 \<le> x'" by simp
    from "1.IH"[OF lt l g r this "1.prems"(3)] show ?thesis .
  qed
qed

lemma png_rgb_rows_loads:
  "png_rgb_rows alpha useTransparency pixels palette width height y idat = Some (Some idat') \<Longrightarrow>
     y \<le> y' \<Longrightarrow> y' < height \<Longrightarrow> 0 \<le> x' \<Longrightarrow> x' < width \<Longrightarrow>
     idx32 (y' * width + x') < length pixels"
proof (induction alpha useTransparency pixels palette width height y idat rule: png_rgb_rows.induct)
  case (1 alpha useTransparency pixels palette width height y idat)
  from "1.prems" have lt: "y < height" by simp
  from "1.prems"(1) lt obtain idat1 idata where
    g: "grow idat [0] = Some idat1"
    and f: "png_rgb_row alpha useTransparency pixels palette width y 0 idat1 = Some (Some idata)"
    and r: "png_rgb_rows alpha useTransparency pixels palette width height (y + 1) idata
              = Some (Some idat')"
    by (auto simp: png_rgb_rows.simps[of alpha useTransparency pixels palette width height y idat]
             split: option.splits)
  show ?case
  proof (cases "y' = y")
    case True
    with png_rgb_row_loads[OF f "1.prems"(4,5)] show ?thesis by simp
  next
    case False
    with "1.prems" have "y + 1 \<le> y'" by simp
    from "1.IH"[OF lt g f _ r this "1.prems"(3,4,5)] show ?thesis by simp
  qed
qed

lemma sread_sdata: "sread s n = (bs, s') \<Longrightarrow> sdata s' = sdata s"
  by (auto simp: sread_def Let_def)

lemma read_byte_sdata: "read_byte s = Some (x, s') \<Longrightarrow> sdata s' = sdata s"
  by (auto simp: read_byte_eq split: if_splits)

lemma read_palette_sdata:
  "read_palette useTransparency s i palette = Some (palette', s') \<Longrightarrow> sdata s' = sdata s"
proof (induction useTransparency s i palette rule: read_palette.induct)
  case (1 useTransparency s i palette)
  show ?case
  proof (cases "i < 256")
    case False
    with "1.prems" show ?thesis by (simp add: read_palette.simps[of useTransparency s i palette])
  next
    case True
    from "1.prems" True obtain r s1 g s2 b s3 where
      r1: "read_byte s = Some (r, s1)" and r2: "read_byte s1 = Some (g, s2)"
      and r3: "read_byte s2 = Some (b, s3)"
      and rec: "read_palette useTransparency s3 (i + 1)
                  (palette @ [\<lparr>col_r = r, col_g = g, col_b = b,
                               col_a = (if useTransparency \<and> i = 0 then 0 else 255)\<rparr>])
                = Some (palette', s')"
      by (auto simp: read_palette.simps[of useTransparency s i palette] split: option.splits)
    from "1.IH"[OF True r1 _ r2 _ r3 _ rec] have "sdata s' = sdata s3" by simp
    with read_byte_sdata[OF r1] read_byte_sdata[OF r2] read_byte_sdata[OF r3]
    show ?thesis by simp
  qed
qed

lemma sseek_sdata: "sseek s off origin = (res, s') \<Longrightarrow> sdata s' = sdata s"
  by (auto simp: sseek_def Let_def split: if_splits)

lemma resolve_palette_sdata:
  "resolve_palette hasPalette useTransparency s = Some (palette, s') \<Longrightarrow> sdata s' = sdata s"
  by (auto simp: resolve_palette_def split: if_splits prod.splits
           dest!: sseek_sdata read_palette_sdata)

lemma sseek_32: "sseek s 32 soFromBeginning = (32, s\<lparr>spos := 32\<rparr>)"
  by (simp add: sseek_def)

lemma spos_reset:
  fixes a b :: sstream
  shows "sdata a = sdata b \<Longrightarrow> a\<lparr>spos := n\<rparr> = b\<lparr>spos := n\<rparr>"
  by (cases a, cases b) simp

lemma sint_pos_unat:
  assumes "0 < sint (w :: u32)"
  shows "sint w = int (unat w)"
proof -
  have eq: "sint w = (uint w + 2 ^ 31) mod 2 ^ 32 - 2 ^ 31"
    by (simp add: sint_uint signed_take_bit_eq_take_bit_shift take_bit_eq_mod)
  have b: "0 \<le> uint w" "uint w < 2 ^ 32"
    using uint_lt2p[of w] by simp_all
  have "uint w < 2 ^ 31"
  proof (rule ccontr)
    assume "\<not> uint w < 2 ^ 31"
    then have "(uint w + 2 ^ 31) mod 2 ^ 32 = uint w + 2 ^ 31 - 2 ^ 32"
      using b by (simp add: mod_pos_geq)
    with eq b assms show False by simp
  qed
  then have "(uint w + 2 ^ 31) mod 2 ^ 32 = uint w + 2 ^ 31"
    using b by simp
  with eq show ?thesis by simp
qed

lemma sint_below: "sint (w :: u32) < 2 ^ 31"
  using sint_lt[of w] by simp

lemma product_fits:
  fixes W H :: u32
  assumes "0 < sint W" and "0 < sint H"
    and "sint W * sint H \<le> int (unat (W * H))"
  shows "int (unat (W * H)) = sint W * sint H"
proof -
  have "unat (W * H) = unat W * unat H mod 2 ^ 32"
    by (simp add: unat_word_ariths)
  then have "unat (W * H) \<le> unat W * unat H" by simp
  then have "int (unat (W * H)) \<le> int (unat W) * int (unat H)"
    by (metis of_nat_le_iff of_nat_mult)
  moreover have "sint W = int (unat W)" "sint H = int (unat H)"
    by (rule sint_pos_unat[OF assms(1)], rule sint_pos_unat[OF assms(2)])
  ultimately show ?thesis using assms(3) by simp
qed

lemma SaveToBMP_covers:
  assumes "SaveToBMP dst pixels width height palette_src useTransparency = Some (0, dst')"
    and "0 < sint width" and "length pixels \<le> 2 ^ 30"
  shows "sint width * sint height \<le> int (length pixels)"
proof -
  have r: "(0 :: int) \<noteq> 1" by simp
  from assms(1) obtain d1 d2 where
    rows: "bmp_rows d1 pixels (black_palette palette_src useTransparency) (sint width)
             (sint height - 1) (replicate (unat ((width * 3 + 3) AND NOT 3)) 0) = Some (True, d2)"
    unfolding SaveToBMP_def Let_def
    by (rule three_stage_success[OF _ r])
  show ?thesis
  proof (rule cells_cover[OF assms(2,3)])
    fix y x :: int
    assume "0 \<le> y" "y < sint height" "0 \<le> x" "x < sint width"
    then show "idx32 (y * sint width + x) < length pixels"
      using bmp_rows_loads[OF rows, of y x] by simp
  qed
qed

lemma SaveToTGA_covers:
  assumes "SaveToTGA dst pixels width height palette_src useTransparency = Some (0, dst')"
    and "0 < sint width" and "length pixels \<le> 2 ^ 30"
  shows "sint width * sint height \<le> int (length pixels)"
proof -
  have r: "(0 :: int) \<noteq> 1" by simp
  from assms(1) obtain d2 d3 where
    rows: "tga_rows d2 pixels (sint width) (sint height) 0 = Some (True, d3)"
    unfolding SaveToTGA_def Let_def
    by (rule four_stage_success[OF _ r])
  show ?thesis
  proof (rule rows_cover[OF assms(2,3)])
    fix y :: int
    assume "0 \<le> y" "y < sint height"
    then show "idx32 (y * sint width) + nat (sint width) \<le> length pixels"
      using tga_rows_loads[OF rows, of y] by simp
  qed
qed

lemma SaveToPNG_covers:
  assumes "SaveToPNG z mode dst pixels width height palette useTransparency = Some (0, dst')"
    and "0 < sint width" and "length pixels \<le> 2 ^ 30"
  shows "sint width * sint height \<le> int (length pixels)"
proof -
  from assms(1) obtain png where
    "png_assemble z mode pixels width height palette useTransparency = Some (Some png)"
    by (auto simp: SaveToPNG_def split: option.splits prod.splits)
  then obtain idat where rows:
    "(if mode = PNG_8 then png8_rows pixels (sint width) (sint height) 0 []
      else if mode = PNG_24
      then png_rgb_rows False useTransparency pixels palette (sint width) (sint height) 0 []
      else png_rgb_rows True useTransparency pixels palette (sint width) (sint height) 0 [])
     = Some (Some idat)"
    by (rule png_assemble_cases)
  show ?thesis
  proof (cases "mode = PNG_8")
    case True
    with rows have r8: "png8_rows pixels (sint width) (sint height) 0 [] = Some (Some idat)"
      by simp
    show ?thesis
    proof (rule ranges_cover[OF assms(2) sint_below assms(3)])
      fix y :: int
      assume "0 \<le> y" "y < sint height"
      then show "0 \<le> s32 (y * sint width) \<and> s32 (y * sint width) \<le> s32 ((y + 1) * sint width)
                 \<and> s32 ((y + 1) * sint width) \<le> int (length pixels)"
        using png8_rows_ranges[OF r8, of y] by simp
    qed
  next
    case False
    with rows obtain alpha where rgb:
      "png_rgb_rows alpha useTransparency pixels palette (sint width) (sint height) 0 []
         = Some (Some idat)"
      by (cases "mode = PNG_24") auto
    show ?thesis
    proof (rule cells_cover[OF assms(2,3)])
      fix y x :: int
      assume "0 \<le> y" "y < sint height" "0 \<le> x" "x < sint width"
      then show "idx32 (y * sint width + x) < length pixels"
        using png_rgb_rows_loads[OF rgb, of y x] by simp
    qed
  qed
qed

subsection \<open>\<^verbatim>\<open>ConvertPID\<close> and the run of its decoder\<close>

lemma ConvertPID_decode_failure:
  assumes dec: "decoded src = Some (pos, pixels, src')" and ne: "pos \<noteq> length pixels"
  shows "ConvertPID z mode src dst cnv = Some (1, dst)"
proof -
  obtain hbytes src1 where sr: "sread src 32 = (hbytes, src1)" by (cases "sread src 32")
  then have hb: "fst (sread src 32) = hbytes" by simp
  have d1: "sdata src1 = sdata src" using sr by (rule sread_sdata)
  let ?h = "parse_header hbytes"
  have sh: "source_header src = ?h" by (simp add: source_header_def hb)
  show ?thesis
  proof (cases "resolve_palette (Flags ?h AND 0x80 \<noteq> 0) (Flags ?h AND 0x01 \<noteq> 0) src1")
    case None
    then show ?thesis by (simp add: ConvertPID_def sr Let_def)
  next
    case (Some p)
    obtain palette src2 where p: "p = (palette, src2)" by (cases p)
    with Some have rp: "resolve_palette (Flags ?h AND 0x80 \<noteq> 0) (Flags ?h AND 0x01 \<noteq> 0) src1
                          = Some (palette, src2)" by simp
    have "sdata src2 = sdata src" using resolve_palette_sdata[OF rp] d1 by simp
    then have eq: "src2\<lparr>spos := 32\<rparr> = src\<lparr>spos := 32\<rparr>" by (rule spos_reset)
    from dec have "decompress (Flags ?h AND 0x20 \<noteq> 0) (src\<lparr>spos := 32\<rparr>) (unat (pixel_count ?h))
                     = Some (pos, pixels, src')"
      by (simp add: decoded_def sh)
    with ne show ?thesis
      by (simp add: ConvertPID_def sr Let_def rp sseek_32 eq)
  qed
qed

lemma ConvertPID_success_cases:
  assumes "ConvertPID z mode src dst cnv = Some (0, dst')"
  obtains pixels src' pixels' palette where
    "decoded src = Some (length pixels, pixels, src')"
    and "0 < sint (Width (source_header src))" and "0 < sint (Height (source_header src))"
    and "unat (pixel_count (source_header src)) \<le> 2 ^ 30"
    and "orient pixels (sint (Width (source_header src))) (sint (Height (source_header src)))
           (Flags (source_header src) AND 0x08 \<noteq> 0) (Flags (source_header src) AND 0x10 \<noteq> 0)
         = Some pixels'"
    and "(if cnv = ''BMP'' then
            SaveToBMP dst pixels' (Width (source_header src)) (Height (source_header src)) palette
              (Flags (source_header src) AND 0x01 \<noteq> 0)
          else if cnv = ''TGA8'' \<or> cnv = ''TGA'' then
            SaveToTGA dst pixels' (Width (source_header src)) (Height (source_header src)) palette
              (Flags (source_header src) AND 0x01 \<noteq> 0)
          else
            SaveToPNG z mode dst pixels' (Width (source_header src)) (Height (source_header src))
              palette (Flags (source_header src) AND 0x01 \<noteq> 0))
         = Some (0, dst')"
proof -
  obtain hbytes src1 where sr: "sread src 32 = (hbytes, src1)" by (cases "sread src 32")
  then have hb: "fst (sread src 32) = hbytes" by simp
  have d1: "sdata src1 = sdata src" using sr by (rule sread_sdata)
  let ?h = "parse_header hbytes"
  have sh: "source_header src = ?h" by (simp add: source_header_def hb)
  from assms have valid: "length hbytes = 32" "ID ?h = 10" "0 < sint (Width ?h)"
    "0 < sint (Height ?h)" "unat (pixel_count ?h) \<le> 2 ^ 30"
    by (auto simp: ConvertPID_def sr Let_def split: if_splits)
  from assms valid obtain palette src2 where
    rp: "resolve_palette (Flags ?h AND 0x80 \<noteq> 0) (Flags ?h AND 0x01 \<noteq> 0) src1
           = Some (palette, src2)"
    by (cases "resolve_palette (Flags ?h AND 0x80 \<noteq> 0) (Flags ?h AND 0x01 \<noteq> 0) src1")
       (auto simp: ConvertPID_def sr Let_def)
  have "sdata src2 = sdata src" using resolve_palette_sdata[OF rp] d1 by simp
  then have eq: "src2\<lparr>spos := 32\<rparr> = src\<lparr>spos := 32\<rparr>" by (rule spos_reset)
  have dd: "decoded src = decompress (Flags ?h AND 0x20 \<noteq> 0) (src\<lparr>spos := 32\<rparr>)
                            (unat (pixel_count ?h))"
    by (simp add: decoded_def sh)
  note unfold = ConvertPID_def sr Let_def rp sseek_32 eq dd[symmetric]
  from assms valid obtain pos pixels src' where
    dec: "decoded src = Some (pos, pixels, src')"
    by (cases "decoded src") (auto simp: unfold)
  have full: "pos = length pixels"
  proof (rule ccontr)
    assume "pos \<noteq> length pixels"
    from ConvertPID_decode_failure[OF dec this] assms show False by simp
  qed
  from assms valid dec full obtain pixels' where
    ori: "orient pixels (sint (Width ?h)) (sint (Height ?h))
           (Flags ?h AND 0x08 \<noteq> 0) (Flags ?h AND 0x10 \<noteq> 0) = Some pixels'"
    by (cases "orient pixels (sint (Width ?h)) (sint (Height ?h))
           (Flags ?h AND 0x08 \<noteq> 0) (Flags ?h AND 0x10 \<noteq> 0)") (auto simp: unfold)
  from assms valid have enc:
    "(if cnv = ''BMP'' then
        SaveToBMP dst pixels' (Width ?h) (Height ?h) palette (Flags ?h AND 0x01 \<noteq> 0)
      else if cnv = ''TGA8'' \<or> cnv = ''TGA'' then
        SaveToTGA dst pixels' (Width ?h) (Height ?h) palette (Flags ?h AND 0x01 \<noteq> 0)
      else
        SaveToPNG z mode dst pixels' (Width ?h) (Height ?h) palette (Flags ?h AND 0x01 \<noteq> 0))
     = Some (0, dst')"
    by (auto simp: unfold dec full ori split: option.splits if_splits prod.splits)
  from dec full have dec': "decoded src = Some (length pixels, pixels, src')" by simp
  show thesis
    by (rule that[unfolded sh, OF dec' valid(3,4,5) ori enc])
qed

lemma ConvertPID_success_full_raster:
  assumes "ConvertPID z mode src dst cnv = Some (0, dst')"
  shows "\<exists>pixels src'. decoded src = Some (length pixels, pixels, src')
     \<and> int (length pixels)
         = sint (Width (source_header src)) * sint (Height (source_header src))"
proof -
  let ?W = "Width (source_header src)" and ?H = "Height (source_header src)"
  from assms obtain pixels src' pixels' palette where
    dec: "decoded src = Some (length pixels, pixels, src')"
    and w: "0 < sint ?W" and h: "0 < sint ?H"
    and cap: "unat (pixel_count (source_header src)) \<le> 2 ^ 30"
    and ori: "orient pixels (sint ?W) (sint ?H)
           (Flags (source_header src) AND 0x08 \<noteq> 0) (Flags (source_header src) AND 0x10 \<noteq> 0)
         = Some pixels'"
    and enc: "(if cnv = ''BMP'' then
            SaveToBMP dst pixels' ?W ?H palette (Flags (source_header src) AND 0x01 \<noteq> 0)
          else if cnv = ''TGA8'' \<or> cnv = ''TGA'' then
            SaveToTGA dst pixels' ?W ?H palette (Flags (source_header src) AND 0x01 \<noteq> 0)
          else
            SaveToPNG z mode dst pixels' ?W ?H palette (Flags (source_header src) AND 0x01 \<noteq> 0))
         = Some (0, dst')"
    by (rule ConvertPID_success_cases)
  have len: "length pixels = unat (pixel_count (source_header src))"
    using dec by (auto simp: decoded_def dest: decompress_length)
  have len': "length pixels' = length pixels" using ori by (rule orient_length)
  have small: "length pixels' \<le> 2 ^ 30" using len len' cap by simp
  have "sint ?W * sint ?H \<le> int (length pixels')"
    using enc SaveToBMP_covers[OF _ w small] SaveToTGA_covers[OF _ w small]
      SaveToPNG_covers[OF _ w small]
    by (auto split: if_splits)
  then have "sint ?W * sint ?H \<le> int (unat (?W * ?H))"
    using len len' by (simp add: pixel_count_def)
  from product_fits[OF w h this] have "int (length pixels) = sint ?W * sint ?H"
    using len by (simp add: pixel_count_def)
  with dec show ?thesis by blast
qed

lemma rle_literal_short:
  assumes "pos < length pixels" and "length pixels < SIZE_MAX"
    and "read_byte s = Some (A, s1)" and "A \<le> 128"
    and "length (sdata s1) - spos s1 < min (unat A) (length pixels - pos)"
  shows "\<exists>pixels' s'. rle_loop s pos pixels = Some (SIZE_MAX, pixels', s')
           \<and> length pixels' = length pixels"
proof -
  from assms(4) have "\<not> A > 128" by simp
  with assms(5) obtain pixels' s' where r: "rle_loop s pos pixels = Some (SIZE_MAX, pixels', s')"
    by (simp add: rle_step[OF assms(1,2,3)] Let_def)
  from rle_loop_length[OF r] r show ?thesis by blast
qed

lemmas dec_eval = decoded_def source_header_def sread_def parse_header_def word_of_le_def
  pixel_count_def decompress_def read_byte_eq store_def pid_file_def Let_def SIZE_MAX_def
  pid_header_bytes le32_def replicate_numeral

text \<open>
  C1. The claim: \<open>ConvertPID\<close> succeeds only if the decoder produced exactly
  \<open>width * height\<close> indices, and it fails when a byte the decoder needs cannot be
  read before the raster is full, in particular when the declared count of a literal
  run of the run-length grammar exceeds the bytes remaining in the source. The
  literal run also stops at the end of the raster (\<^verbatim>\<open>i < A && pos < pixels.size()\<close>):
  a run that declares five bytes, with two bytes remaining and a raster of two
  entries, reads the two, fills the raster, and the conversion returns 0 with the
  raster \<open>[7, 8]\<close>.
\<close>

theorem C1_literal_run_filling_raster_counterexample:
  "return_value (ConvertPID stub_zlib PNG_8 (pid_file (pid_header 0x20 2 1 @ [0x05, 7, 8]))
                   fresh_dst ''BMP'') = Some 0
   \<and> unat (0x05 :: byte) = 5
   \<and> length (sdata (pid_file (pid_header 0x20 2 1 @ [0x05, 7, 8]))) - 33 = 2
   \<and> map_option fst (decoded (pid_file (pid_header 0x20 2 1 @ [0x05, 7, 8]))) = Some 2
   \<and> map_option (fst \<circ> snd) (decoded (pid_file (pid_header 0x20 2 1 @ [0x05, 7, 8])))
       = Some [7, 8]"
proof (intro conjI)
  show "return_value (ConvertPID stub_zlib PNG_8 (pid_file (pid_header 0x20 2 1 @ [0x05, 7, 8]))
                   fresh_dst ''BMP'') = Some 0"
    by (simp add: conv_eval pid_header_bytes replicate_numeral rle_loop.simps lit_run.simps
        SIZE_MAX_def SaveToBMP_def bmp_rows.simps bmp_fill_row.simps fresh_dst_def)
  show "unat (0x05 :: byte) = 5" by simp
  show "length (sdata (pid_file (pid_header 0x20 2 1 @ [0x05, 7, 8]))) - 33 = 2"
    by (simp add: pid_file_def pid_header_bytes le32_def)
  have d: "decoded (pid_file (pid_header 0x20 2 1 @ [0x05, 7, 8])) =
      Some (2, [7, 8], \<lparr>sdata = pid_header 0x20 2 1 @ [0x05, 7, 8], spos = 35\<rparr>)"
    by (simp add: dec_eval rle_loop.simps lit_run.simps)
  show "map_option fst (decoded (pid_file (pid_header 0x20 2 1 @ [0x05, 7, 8]))) = Some 2"
    by (simp add: d)
  show "map_option (fst \<circ> snd) (decoded (pid_file (pid_header 0x20 2 1 @ [0x05, 7, 8])))
       = Some [7, 8]"
    by (simp add: d)
qed

text \<open>
  C1, amended. The bytes a literal run needs are the smaller of its declared count
  and the room left in the raster. \<open>decoded src\<close> is the run of the decoder that
  \<open>ConvertPID\<close> makes on \<open>src\<close>; \<open>decoded src = rle_loop s pos pixels\<close> says that
  the decoder has come to the stream \<open>s\<close>, the position \<open>pos\<close> and the raster
  \<open>pixels\<close>, the rest of its run being the loop from there (\<open>rle_step\<close> and
  \<open>raw_step\<close> give this equation after each round).

  \<^item> If \<open>ConvertPID\<close> returns 0, the decoder has returned with \<open>pos\<close> equal to the
    size of the raster, and that size is \<open>width * height\<close>, the product of the
    header's fields in the integers. (A run that reads or writes outside a vector
    is \<open>None\<close>, not a return of 0.)
  \<^item> If the decoder returns with \<open>pos\<close> different from the size of the raster,
    \<open>ConvertPID\<close> returns 1 and the destination is as it was: nothing is written.
  \<^item> That is the case when a control byte cannot be read while the raster is not
    full (either grammar), when a literal run of the run-length grammar needs more
    bytes than remain, and when the fill value of a run of the other grammar cannot
    be read.
\<close>

theorem C1_exact_raster_or_failure:
  "(ConvertPID z mode src dst cnv = Some (0, dst') \<longrightarrow>
      (\<exists>pixels src'. decoded src = Some (length pixels, pixels, src')
         \<and> int (length pixels)
             = sint (Width (source_header src)) * sint (Height (source_header src))))
   \<and> (decoded src = Some (p, px, s') \<and> p \<noteq> length px \<longrightarrow>
        ConvertPID z mode src dst cnv = Some (1, dst))
   \<and> ((decoded src = rle_loop s pos pixels \<or> decoded src = raw_loop s pos pixels)
        \<and> pos < length pixels \<and> read_byte s = None \<longrightarrow>
        ConvertPID z mode src dst cnv = Some (1, dst))
   \<and> (decoded src = rle_loop s pos pixels \<and> pos < length pixels \<and> length pixels < SIZE_MAX
        \<and> read_byte s = Some (A, s1) \<and> A \<le> 128
        \<and> length (sdata s1) - spos s1 < min (unat A) (length pixels - pos) \<longrightarrow>
        ConvertPID z mode src dst cnv = Some (1, dst))
   \<and> (decoded src = raw_loop s pos pixels \<and> pos < length pixels
        \<and> read_byte s = Some (A, s1) \<and> 192 < A \<and> read_byte s1 = None \<longrightarrow>
        ConvertPID z mode src dst cnv = Some (1, dst))"
proof (intro conjI impI)
  assume "ConvertPID z mode src dst cnv = Some (0, dst')"
  then show "\<exists>pixels src'. decoded src = Some (length pixels, pixels, src')
         \<and> int (length pixels)
             = sint (Width (source_header src)) * sint (Height (source_header src))"
    by (rule ConvertPID_success_full_raster)
next
  assume "decoded src = Some (p, px, s') \<and> p \<noteq> length px"
  then show "ConvertPID z mode src dst cnv = Some (1, dst)"
    using ConvertPID_decode_failure by blast
next
  assume a: "(decoded src = rle_loop s pos pixels \<or> decoded src = raw_loop s pos pixels)
        \<and> pos < length pixels \<and> read_byte s = None"
  then have "rle_loop s pos pixels = Some (pos, pixels, s)"
    "raw_loop s pos pixels = Some (pos, pixels, s)"
    by (simp_all add: rle_loop.simps[of s pos pixels] raw_loop.simps[of s pos pixels])
  with a have "decoded src = Some (pos, pixels, s)" by auto
  moreover from a have "pos \<noteq> length pixels" by simp
  ultimately show "ConvertPID z mode src dst cnv = Some (1, dst)"
    by (rule ConvertPID_decode_failure)
next
  assume a: "decoded src = rle_loop s pos pixels \<and> pos < length pixels \<and> length pixels < SIZE_MAX
        \<and> read_byte s = Some (A, s1) \<and> A \<le> 128
        \<and> length (sdata s1) - spos s1 < min (unat A) (length pixels - pos)"
  then obtain pixels' s' where r: "rle_loop s pos pixels = Some (SIZE_MAX, pixels', s')"
    and l: "length pixels' = length pixels"
    using rle_literal_short[of pos pixels s A s1] by blast
  from a r have "decoded src = Some (SIZE_MAX, pixels', s')" by simp
  moreover from a l have "SIZE_MAX \<noteq> length pixels'" by simp
  ultimately show "ConvertPID z mode src dst cnv = Some (1, dst)"
    by (rule ConvertPID_decode_failure)
next
  assume a: "decoded src = raw_loop s pos pixels \<and> pos < length pixels
        \<and> read_byte s = Some (A, s1) \<and> 192 < A \<and> read_byte s1 = None"
  then have "raw_loop s pos pixels = Some (pos, pixels, s1)"
    by (simp add: raw_loop.simps[of s pos pixels])
  with a have "decoded src = Some (pos, pixels, s1)" by simp
  moreover from a have "pos \<noteq> length pixels" by simp
  ultimately show "ConvertPID z mode src dst cnv = Some (1, dst)"
    by (rule ConvertPID_decode_failure)
qed

text \<open>The theorem at five runs: a 1\<times>1 image that converts; a 2\<times>1 image with one
  pixel of data, by the final position and by the control byte that cannot be read;
  a 3\<times>1 image whose literal run declares five bytes with one remaining; and a
  2\<times>1 image whose run header \<open>0xC2\<close> has no fill value after it.\<close>

theorem C1_exact_raster_or_failure_witness:
  "(\<exists>dst'. ConvertPID stub_zlib PNG_8 (pid_file (pid_header 0 1 1 @ [0x05])) fresh_dst ''BMP''
             = Some (0, dst')
      \<and> (\<exists>pixels src'. decoded (pid_file (pid_header 0 1 1 @ [0x05]))
                           = Some (length pixels, pixels, src')
            \<and> int (length pixels)
                = sint (Width (source_header (pid_file (pid_header 0 1 1 @ [0x05]))))
                  * sint (Height (source_header (pid_file (pid_header 0 1 1 @ [0x05]))))))
   \<and> (decoded (pid_file (pid_header 0 2 1 @ [9]))
         = Some (1, [9, 0], \<lparr>sdata = pid_header 0 2 1 @ [9], spos = 33\<rparr>)
      \<and> 1 \<noteq> length [9, 0 :: byte]
      \<and> ConvertPID stub_zlib PNG_8 (pid_file (pid_header 0 2 1 @ [9])) fresh_dst ''BMP''
          = Some (1, fresh_dst))
   \<and> (decoded (pid_file (pid_header 0 2 1 @ [9]))
         = raw_loop \<lparr>sdata = pid_header 0 2 1 @ [9], spos = 33\<rparr> 1 [9, 0]
      \<and> 1 < length [9, 0 :: byte]
      \<and> read_byte \<lparr>sdata = pid_header 0 2 1 @ [9], spos = 33\<rparr> = None
      \<and> ConvertPID stub_zlib PNG_8 (pid_file (pid_header 0 2 1 @ [9])) fresh_dst ''TGA''
          = Some (1, fresh_dst))
   \<and> (decoded (pid_file (pid_header 0x20 3 1 @ [0x05, 7]))
         = rle_loop \<lparr>sdata = pid_header 0x20 3 1 @ [0x05, 7], spos = 32\<rparr> 0 [0, 0, 0]
      \<and> read_byte \<lparr>sdata = pid_header 0x20 3 1 @ [0x05, 7], spos = 32\<rparr>
          = Some (0x05, \<lparr>sdata = pid_header 0x20 3 1 @ [0x05, 7], spos = 33\<rparr>)
      \<and> length (pid_header 0x20 3 1 @ [0x05, 7 :: byte]) - 33 < min (unat (0x05 :: byte)) (3 - 0)
      \<and> ConvertPID stub_zlib PNG_8 (pid_file (pid_header 0x20 3 1 @ [0x05, 7])) fresh_dst ''PNG''
          = Some (1, fresh_dst))
   \<and> (decoded (pid_file (pid_header 0 2 1 @ [0xC2]))
         = raw_loop \<lparr>sdata = pid_header 0 2 1 @ [0xC2], spos = 32\<rparr> 0 [0, 0]
      \<and> read_byte \<lparr>sdata = pid_header 0 2 1 @ [0xC2], spos = 32\<rparr>
          = Some (0xC2, \<lparr>sdata = pid_header 0 2 1 @ [0xC2], spos = 33\<rparr>)
      \<and> read_byte \<lparr>sdata = pid_header 0 2 1 @ [0xC2], spos = 33\<rparr> = None
      \<and> ConvertPID stub_zlib PNG_8 (pid_file (pid_header 0 2 1 @ [0xC2])) fresh_dst ''BMP''
          = Some (1, fresh_dst))"
proof (intro conjI)
  let ?ok = "pid_file (pid_header 0 1 1 @ [0x05])"
  obtain dst' where run: "ConvertPID stub_zlib PNG_8 ?ok fresh_dst ''BMP'' = Some (0, dst')"
    using bmp_1x1_return by (auto simp: return_value_def)
  from C1_exact_raster_or_failure[where z = stub_zlib and mode = PNG_8 and src = ?ok and dst = fresh_dst
      and cnv = "''BMP''" and dst' = dst'] run
  show "\<exists>dst'. ConvertPID stub_zlib PNG_8 ?ok fresh_dst ''BMP'' = Some (0, dst')
      \<and> (\<exists>pixels src'. decoded ?ok = Some (length pixels, pixels, src')
            \<and> int (length pixels)
                = sint (Width (source_header ?ok)) * sint (Height (source_header ?ok)))"
    by blast
next
  let ?src = "pid_file (pid_header 0 2 1 @ [9])"
  let ?s = "\<lparr>sdata = pid_header 0 2 1 @ [9], spos = 33\<rparr>"
  have d: "decoded ?src = Some (1, [9, 0], ?s)"
    by (simp add: dec_eval raw_loop.simps fill_run.simps)
  have r: "raw_loop ?s 1 [9, 0] = Some (1, [9, 0], ?s)"
    by (simp add: dec_eval raw_loop.simps)
  have n: "read_byte ?s = None" by (simp add: dec_eval)
  show "decoded ?src = Some (1, [9, 0], ?s)" by (rule d)
  show "1 \<noteq> length [9, 0 :: byte]" by simp
  from C1_exact_raster_or_failure[where src = ?src and p = 1 and px = "[9, 0]" and s' = ?s] d
  show "ConvertPID stub_zlib PNG_8 ?src fresh_dst ''BMP'' = Some (1, fresh_dst)" by simp
  show "decoded ?src = raw_loop ?s 1 [9, 0]" by (simp only: d r)
  show "1 < length [9, 0 :: byte]" by simp
  show "read_byte ?s = None" by (rule n)
  from C1_exact_raster_or_failure[where src = ?src and s = ?s and pos = 1 and pixels = "[9, 0]"] d r n
  show "ConvertPID stub_zlib PNG_8 ?src fresh_dst ''TGA'' = Some (1, fresh_dst)" by simp
next
  let ?src = "pid_file (pid_header 0x20 3 1 @ [0x05, 7])"
  let ?s = "\<lparr>sdata = pid_header 0x20 3 1 @ [0x05, 7], spos = 32\<rparr>"
  let ?s1 = "\<lparr>sdata = pid_header 0x20 3 1 @ [0x05, 7], spos = 33\<rparr>"
  have d: "decoded ?src = rle_loop ?s 0 [0, 0, 0]" by (simp add: dec_eval)
  have rb: "read_byte ?s = Some (0x05, ?s1)" by (simp add: dec_eval)
  have few: "length (pid_header 0x20 3 1 @ [0x05, 7 :: byte]) - 33 < min (unat (0x05 :: byte)) (3 - 0)"
    by (simp add: dec_eval)
  show "decoded ?src = rle_loop ?s 0 [0, 0, 0]" by (rule d)
  show "read_byte ?s = Some (0x05, ?s1)" by (rule rb)
  show "length (pid_header 0x20 3 1 @ [0x05, 7 :: byte]) - 33 < min (unat (0x05 :: byte)) (3 - 0)"
    by (rule few)
  from C1_exact_raster_or_failure[where src = ?src and s = ?s and pos = 0 and pixels = "[0, 0, 0]" and A = 5
      and ?s1.0 = ?s1] d rb few
  show "ConvertPID stub_zlib PNG_8 ?src fresh_dst ''PNG'' = Some (1, fresh_dst)"
    by (simp add: SIZE_MAX_def)
next
  let ?src = "pid_file (pid_header 0 2 1 @ [0xC2])"
  let ?s = "\<lparr>sdata = pid_header 0 2 1 @ [0xC2], spos = 32\<rparr>"
  let ?s1 = "\<lparr>sdata = pid_header 0 2 1 @ [0xC2], spos = 33\<rparr>"
  have d: "decoded ?src = raw_loop ?s 0 [0, 0]" by (simp add: dec_eval)
  have rb: "read_byte ?s = Some (0xC2, ?s1)" by (simp add: dec_eval)
  have n: "read_byte ?s1 = None" by (simp add: dec_eval)
  show "decoded ?src = raw_loop ?s 0 [0, 0]" by (rule d)
  show "read_byte ?s = Some (0xC2, ?s1)" by (rule rb)
  show "read_byte ?s1 = None" by (rule n)
  from C1_exact_raster_or_failure[where src = ?src and s = ?s and pos = 0 and pixels = "[0, 0]" and A = "0xC2"
      and ?s1.0 = ?s1] d rb n
  show "ConvertPID stub_zlib PNG_8 ?src fresh_dst ''BMP'' = Some (1, fresh_dst)"
    by simp
qed

end
